theory Spec2Isabelle
  imports Complex_Main
begin

section \<open>Python values and errors\<close>

text \<open>
  The module \<^verbatim>\<open>pymatgen/io/abinitio/workflow.py\<close> is embedded function by function.
  Every exception the embedded code can raise is a value of \<open>error\<close>; a function that
  may raise returns \<open>error + 'a\<close> with \<open>Inl\<close> for the exception.

  \<^item> \<open>IndexError\<close>: a list index out of range (raised by the interpreter).
  \<^item> \<open>ZeroDivisionError\<close>: a division by zero (raised by the interpreter, with the
    interpreter's own text, not by a check of the program).
  \<^item> \<open>ValueError msg\<close>: \<^verbatim>\<open>raise ValueError(msg)\<close> of the program.
  \<^item> \<open>StopIteration\<close>: an exhausted generator, or \<^verbatim>\<open>raise StopIteration(...)\<close>.
  \<^item> \<open>AssertionError\<close>: a failed \<^verbatim>\<open>assert\<close>.
  \<^item> \<open>AttributeError\<close>: an attribute read before it was ever assigned.
  \<^item> \<open>TypeError\<close>: an operation on an object of the wrong type (raised by the
    interpreter).
  \<^item> \<open>InvalidJobSpecError\<close>: the error the spec designates for a job specification
    that is neither a strategy nor an input object (it also calls it
    \<open>UnsupportedJobSpecError\<close>); no statement of the module raises it.
  \<^item> \<open>ExternalError msg\<close>: any exception raised by a collaborator whose code is outside
    the module (the task constructors).
\<close>

datatype error =
    IndexError
  | ZeroDivisionError
  | ValueError string
  | StopIteration
  | AssertionError
  | AttributeError
  | TypeError
  | InvalidJobSpecError
  | ExternalError string

text \<open>
  Reading \<^verbatim>\<open>xs[i]\<close> from a Python list of length \<open>len\<close>: positions \<open>0 .. len-1\<close> are read
  directly, positions \<open>-len .. -1\<close> are read from the end, everything else raises.
\<close>

definition py_index :: "'a list \<Rightarrow> int \<Rightarrow> error + 'a" where
  "py_index xs i =
     (if 0 \<le> i \<and> i < int (length xs) then Inr (xs ! nat i)
      else if i < 0 \<and> - int (length xs) \<le> i then Inr (xs ! nat (int (length xs) + i))
      else Inl IndexError)"

section \<open>Convergence analysis\<close>

text \<open>
  The values, the reference and the tolerance are finite numbers, modelled as exact
  reals: rounding is outside the model. The numbers handed to \<open>check_conv\<close> are either
  built-in numbers (\<open>int\<close>, \<open>float\<close>), for which a division by zero raises
  \<open>ZeroDivisionError\<close>, or \<open>numpy.float64\<close> numbers (what the readers of the output files
  return), for which a division by zero, with the error handling numpy starts with,
  raises nothing and gives an infinity or a NaN; the sign of the infinity is the sign of
  the zero, \<open>+0.0\<close> or \<open>-0.0\<close>. The reals have one zero and one kind of number, so the way
  a division by a zero reference ends is a parameter of the model.
\<close>

text \<open>
  \<^item> \<open>ZRaises\<close>: built-in numbers, the division raises \<open>ZeroDivisionError\<close>;
  \<^item> \<open>ZPlus\<close>: numpy numbers, and the reference, when it is zero, is \<open>+0.0\<close> (or the
    integer \<open>0\<close>);
  \<^item> \<open>ZMinus\<close>: numpy numbers, and the reference, when it is zero, is \<open>-0.0\<close>.

  The division follows numpy's rules as soon as the value or the reference is a numpy
  number. The values of one list are taken to be of one kind.
\<close>

datatype zero_division = ZRaises | ZPlus | ZMinus

text \<open>
  A deviation is a finite number, an infinity or a NaN. The comparisons with a finite
  number follow IEEE 754: every comparison with a NaN is false.
\<close>

datatype dev = Fin real | PosInf | NegInf | NaN

fun dev_lt :: "dev \<Rightarrow> real \<Rightarrow> bool" where
  "dev_lt (Fin x) t = (x < t)"
| "dev_lt PosInf t = False"
| "dev_lt NegInf t = True"
| "dev_lt NaN t = False"

fun dev_gt :: "dev \<Rightarrow> real \<Rightarrow> bool" where
  "dev_gt (Fin x) t = (x > t)"
| "dev_gt PosInf t = True"
| "dev_gt NegInf t = False"
| "dev_gt NaN t = False"

text \<open>
  \<^verbatim>\<open>
  def check_conv(values, tol, min_numpts=1, mode="abs", vinf=None):
      vinf = values[-1] if vinf is None else vinf
      if mode == "abs":
          vdiff = [abs(v - vinf) for v in values]
      elif mode == "rel":
          vdiff = [abs(v - vinf) / vinf for v in values]
      else:
          raise ValueError("Wrong mode %s" % mode)
      numpts = len(vdiff)
      i = -2
      if (numpts > min_numpts) and vdiff[-2] < tol:
          for i in range(numpts-1, -1, -1):
              if vdiff[i] > tol:
                  break
          if (numpts - i -1) < min_numpts: i = -2
      return i + 1
  \<close>
\<close>

text \<open>The reference value: \<^verbatim>\<open>values[-1] if vinf is None else vinf\<close>.\<close>

definition conv_vinf :: "real list \<Rightarrow> real option \<Rightarrow> error + real" where
  "conv_vinf vals vinf =
     (case vinf of None \<Rightarrow> py_index vals (- 1) | Some v \<Rightarrow> Inr v)"

text \<open>
  The division \<^verbatim>\<open>a / vinf\<close> of relative mode, where \<open>a\<close> is \<^verbatim>\<open>abs(v - vinf)\<close>, hence not
  negative: by a zero, built-in numbers raise, and numpy numbers give NaN for \<open>0 / 0\<close>
  and otherwise the infinity of the sign of the zero.
\<close>

definition rel_div :: "zero_division \<Rightarrow> real \<Rightarrow> real \<Rightarrow> error + dev" where
  "rel_div zdiv a vinf =
     (if vinf \<noteq> 0 then Inr (Fin (a / vinf))
      else (case zdiv of
              ZRaises \<Rightarrow> Inl ZeroDivisionError
            | ZPlus \<Rightarrow> Inr (if a = 0 then NaN else PosInf)
            | ZMinus \<Rightarrow> Inr (if a = 0 then NaN else NegInf)))"

text \<open>
  A list comprehension whose element may raise: the elements are computed from left to
  right and the first exception ends the comprehension.
\<close>

fun comprehension :: "('a \<Rightarrow> error + 'b) \<Rightarrow> 'a list \<Rightarrow> error + 'b list" where
  "comprehension f [] = Inr []"
| "comprehension f (x # xs) =
     (case f x of
        Inl e \<Rightarrow> Inl e
      | Inr y \<Rightarrow> (case comprehension f xs of Inl e \<Rightarrow> Inl e | Inr ys \<Rightarrow> Inr (y # ys)))"

text \<open>The list of deviations, or the error of the mode or of the division.\<close>

definition conv_vdiff :: "zero_division \<Rightarrow> string \<Rightarrow> real \<Rightarrow> real list \<Rightarrow> error + dev list" where
  "conv_vdiff zdiv mode vinf vals =
     (if mode = ''abs'' then Inr (map (\<lambda>v. Fin \<bar>v - vinf\<bar>) vals)
      else if mode = ''rel'' then comprehension (\<lambda>v. rel_div zdiv \<bar>v - vinf\<bar> vinf) vals
      else Inl (ValueError (''Wrong mode '' @ mode)))"

text \<open>
  The loop \<^verbatim>\<open>for i in range(numpts-1, -1, -1): if vdiff[i] > tol: break\<close>.
  \<open>conv_scan vdiff tol k i\<close> runs the iterations for the indices \<open>k-1, ..., 0\<close>,
  where \<open>i\<close> is the value the loop variable has so far. The variable keeps the index
  of the \<^verbatim>\<open>break\<close>, or the last index visited when the range is used up.
\<close>

fun conv_scan :: "dev list \<Rightarrow> real \<Rightarrow> nat \<Rightarrow> int \<Rightarrow> int" where
  "conv_scan vdiff tol 0 i = i"
| "conv_scan vdiff tol (Suc k) i =
     (if dev_gt (vdiff ! k) tol then int k else conv_scan vdiff tol k (int k))"

text \<open>The part of \<open>check_conv\<close> after \<open>vdiff\<close> is known.\<close>

definition conv_index :: "dev list \<Rightarrow> real \<Rightarrow> int \<Rightarrow> error + int" where
  "conv_index vdiff tol min_numpts =
     (let numpts = int (length vdiff) in
      if numpts > min_numpts then
        (case py_index vdiff (- 2) of
           Inl e \<Rightarrow> Inl e
         | Inr d2 \<Rightarrow>
             if dev_lt d2 tol then
               (let i = conv_scan vdiff tol (length vdiff) (- 2);
                    i' = (if numpts - i - 1 < min_numpts then - 2 else i)
                in Inr (i' + 1))
             else Inr (- 2 + 1))
      else Inr (- 2 + 1))"

definition check_conv ::
  "zero_division \<Rightarrow> real list \<Rightarrow> real \<Rightarrow> int \<Rightarrow> string \<Rightarrow> real option \<Rightarrow> error + int" where
  "check_conv zdiv vals tol min_numpts mode vinf =
     (case conv_vinf vals vinf of
        Inl e \<Rightarrow> Inl e
      | Inr v \<Rightarrow>
          (case conv_vdiff zdiv mode v vals of
             Inl e \<Rightarrow> Inl e
           | Inr vdiff \<Rightarrow> conv_index vdiff tol min_numpts))"

text \<open>
  \<^verbatim>\<open>
  def strictly_decreasing(values):
      return all(x > y for x, y in zip(values, values[1:]))
  \<close>
\<close>

definition strictly_decreasing :: "real list \<Rightarrow> bool" where
  "strictly_decreasing vals = list_all (\<lambda>(x, y). x > y) (zip vals (drop 1 vals))"

text \<open>
  \<^verbatim>\<open>
  def compute_hints(ecut_list, etotal, atols_mev, pseudo, min_numpts=1, stream=sys.stdout):
      de_low, de_normal, de_high = [a / (1000 * Ha_to_eV) for a in atols_mev]
      num_ene = len(etotal)
      etotal_inf = etotal[-1]
      ihigh   = check_conv(etotal, de_high, min_numpts=min_numpts)
      inormal = check_conv(etotal, de_normal)
      ilow    = check_conv(etotal, de_low)
      ...
      ecut_high, ecut_normal, ecut_low = 3 * (None,)
      exit = (ihigh != -1)
      if exit:
          ecut_low    = ecut_list[ilow]
          ecut_normal = ecut_list[inormal]
          ecut_high   = ecut_list[ihigh]
      aug_ratios = [1,]
      aug_ratio_low, aug_ratio_normal, aug_ratio_high = 3 * (1,)
      data = {"exit": ihigh != -1, "etotal": list(etotal), "ecut_list": ecut_list,
              "aug_ratios": aug_ratios,
              "low": {"ecut": ecut_low, "aug_ratio": aug_ratio_low},
              "normal": {"ecut": ecut_normal, "aug_ratio": aug_ratio_normal},
              "high": {"ecut": ecut_high, "aug_ratio": aug_ratio_high},
              "pseudo_name": pseudo.name, "pseudo_path": pseudo.path,
              "atols_mev": atols_mev, "dojo_level": 0}
      return data
  \<close>
  The elided lines build a table of formatted numbers and print it to \<open>stream\<close>; the
  table is not part of the returned dictionary and is left out. The conversion factor
  \<open>Ha_to_eV\<close> is imported from \<^verbatim>\<open>pymatgen.core.units\<close>; it is a parameter here, and so
  is the kind of the numbers, which \<open>check_conv\<close> takes.
\<close>

record pseudo =
  name :: string
  path :: string

record tier =
  ecut :: "real option"
  aug_ratio :: int

record hints =
  exit :: bool
  etotal :: "real list"
  ecut_list :: "real list"
  aug_ratios :: "int list"
  low :: tier
  normal :: tier
  high :: tier
  pseudo_name :: string
  pseudo_path :: string
  atols_mev :: "real list"
  dojo_level :: int

text \<open>
  \<^verbatim>\<open>de_low, de_normal, de_high = [a / (1000 * Ha_to_eV) for a in atols_mev]\<close>:
  the division raises when the factor is zero and the list is not empty; the unpacking
  raises \<open>ValueError\<close> unless the list has exactly three elements.
\<close>

definition hint_tolerances :: "real \<Rightarrow> real list \<Rightarrow> error + (real \<times> real \<times> real)" where
  "hint_tolerances Ha_to_eV atols =
     (if atols \<noteq> [] \<and> 1000 * Ha_to_eV = 0 then Inl ZeroDivisionError
      else (case map (\<lambda>a. a / (1000 * Ha_to_eV)) atols of
              [de_low, de_normal, de_high] \<Rightarrow> Inr (de_low, de_normal, de_high)
            | _ \<Rightarrow> Inl (ValueError ''wrong number of values to unpack'')))"

text \<open>The three lookups \<^verbatim>\<open>ecut_list[ilow]\<close>, \<^verbatim>\<open>ecut_list[inormal]\<close>, \<^verbatim>\<open>ecut_list[ihigh]\<close>, in this order.\<close>

definition hint_ecuts :: "real list \<Rightarrow> int \<Rightarrow> int \<Rightarrow> int \<Rightarrow> error + (real \<times> real \<times> real)" where
  "hint_ecuts ecuts ilow inormal ihigh =
     (case py_index ecuts ilow of
        Inl e \<Rightarrow> Inl e
      | Inr el \<Rightarrow>
          (case py_index ecuts inormal of
             Inl e \<Rightarrow> Inl e
           | Inr en \<Rightarrow>
               (case py_index ecuts ihigh of
                  Inl e \<Rightarrow> Inl e
                | Inr eh \<Rightarrow> Inr (el, en, eh))))"

definition hints_data ::
  "real list \<Rightarrow> real list \<Rightarrow> real list \<Rightarrow> pseudo \<Rightarrow> int \<Rightarrow>
   real option \<Rightarrow> real option \<Rightarrow> real option \<Rightarrow> hints" where
  "hints_data ecuts etot atols ps ihigh ecut_low ecut_normal ecut_high =
     \<lparr> exit = (ihigh \<noteq> - 1), etotal = etot, ecut_list = ecuts, aug_ratios = [1],
       low = \<lparr> ecut = ecut_low, aug_ratio = 1 \<rparr>,
       normal = \<lparr> ecut = ecut_normal, aug_ratio = 1 \<rparr>,
       high = \<lparr> ecut = ecut_high, aug_ratio = 1 \<rparr>,
       pseudo_name = name ps, pseudo_path = path ps,
       atols_mev = atols, dojo_level = 0 \<rparr>"

definition compute_hints ::
  "zero_division \<Rightarrow> real \<Rightarrow> real list \<Rightarrow> real list \<Rightarrow> real list \<Rightarrow> pseudo \<Rightarrow> int \<Rightarrow>
   error + hints" where
  "compute_hints zdiv Ha_to_eV ecuts etot atols ps min_numpts =
     (case hint_tolerances Ha_to_eV atols of
        Inl e \<Rightarrow> Inl e
      | Inr (de_low, de_normal, de_high) \<Rightarrow>
     (case py_index etot (- 1) of
        Inl e \<Rightarrow> Inl e
      | Inr etotal_inf \<Rightarrow>
     (case check_conv zdiv etot de_high min_numpts ''abs'' None of
        Inl e \<Rightarrow> Inl e
      | Inr ihigh \<Rightarrow>
     (case check_conv zdiv etot de_normal 1 ''abs'' None of
        Inl e \<Rightarrow> Inl e
      | Inr inormal \<Rightarrow>
     (case check_conv zdiv etot de_low 1 ''abs'' None of
        Inl e \<Rightarrow> Inl e
      | Inr ilow \<Rightarrow>
     (if ihigh \<noteq> - 1 then
        (case hint_ecuts ecuts ilow inormal ihigh of
           Inl e \<Rightarrow> Inl e
         | Inr (el, en, eh) \<Rightarrow>
             Inr (hints_data ecuts etot atols ps ihigh (Some el) (Some en) (Some eh)))
      else Inr (hints_data ecuts etot atols ps ihigh None None None)))))))"

section \<open>Tasks, links and workflows\<close>

text \<open>
  A workflow owns the list of its tasks; the position of a task in the list is its
  \<open>task_id\<close> (\<^verbatim>\<open>task_id = len(self)\<close> at registration). A \<open>Link\<close> holds a reference to
  the task that produces the files; the reference is the position of that task in the
  workflow, so that the status of a link is always the current status of its node.
\<close>

record product =
  ext :: string
  filepath :: string

record link =
  node :: nat
  products :: "product list"

text \<open>
  The class \<open>Task\<close> lives in \<^verbatim>\<open>pymatgen/io/abinitio/task.py\<close>, outside the module. The
  module reads the status codes as attributes (\<^verbatim>\<open>task.S_SUB\<close>, \<^verbatim>\<open>task.S_RUN\<close>,
  \<^verbatim>\<open>task.S_OK\<close>, \<^verbatim>\<open>task.S_READY\<close>, \<^verbatim>\<open>Task.S_DONE\<close>) and compares them as numbers;
  their values are parameters here.
\<close>

record status_codes =
  S_READY :: int
  S_SUB :: int
  S_RUN :: int
  S_DONE :: int
  S_OK :: int

record task =
  task_id :: nat
  status :: int
  tot_ncpus :: int
  links :: "link list"
  task_workdir :: string
  task_class :: string

text \<open>\<^verbatim>\<open>Link.status\<close>: \<^verbatim>\<open>return self.node.status\<close>.\<close>

definition link_status :: "task list \<Rightarrow> link \<Rightarrow> int" where
  "link_status ts l = status (ts ! node l)"

text \<open>
  Modelled from the spec: \<open>Task.links_status\<close> and \<open>Task.set_status\<close>, which are defined in
  \<^verbatim>\<open>task.py\<close>. The spec: \<open>linksStatus\<close> is the statuses of all upstream tasks the task
  depends on; promoting a task sets its status field.
\<close>

definition links_status :: "task list \<Rightarrow> task \<Rightarrow> int list" where
  "links_status ts t = map (link_status ts) (links t)"

definition set_status :: "task \<Rightarrow> int \<Rightarrow> task" where
  "set_status t s = t\<lparr>status := s\<rparr>"

record 'm workflow =
  workdir :: string
  manager :: 'm
  tasks :: "task list"
  links_dict :: "nat \<Rightarrow> link list"
  indir :: string
  outdir :: string
  tmpdir :: string

text \<open>\<^verbatim>\<open>os.path.join\<close> of two components, on a POSIX system.\<close>

definition os_path_join :: "string \<Rightarrow> string \<Rightarrow> string" where
  "os_path_join a b =
     (if b \<noteq> [] \<and> hd b = CHR ''/'' then b
      else if a = [] \<or> last a = CHR ''/'' then a @ b
      else a @ ''/'' @ b)"

text \<open>
  \<^verbatim>\<open>
  def __init__(self, workdir, manager):
      self.workdir = os.path.abspath(workdir)
      self.manager = manager.deepcopy()
      self._tasks = []
      self._links_dict = collections.defaultdict(list)
      self.indir = Directory(os.path.join(self.workdir, "indata"))
      self.outdir = Directory(os.path.join(self.workdir, "outdata"))
      self.tmpdir = Directory(os.path.join(self.workdir, "tmpdata"))
  \<close>
  \<^verbatim>\<open>os.path.abspath\<close> depends on the directory the process runs in, and \<open>deepcopy\<close> is a
  method of the manager, defined outside the module, which may raise: both are
  parameters. A \<^verbatim>\<open>defaultdict(list)\<close> reads as the empty list at every key never written.
  A \<open>Directory\<close> is given by its path.
\<close>

definition Workflow ::
  "(string \<Rightarrow> string) \<Rightarrow> ('m \<Rightarrow> error + 'm) \<Rightarrow> string \<Rightarrow> 'm \<Rightarrow> error + 'm workflow" where
  "Workflow abspath deepcopy wd mgr =
     (let awd = abspath wd in
      case deepcopy mgr of
        Inl e \<Rightarrow> Inl e
      | Inr m \<Rightarrow>
          Inr \<lparr> workdir = awd, manager = m, tasks = [], links_dict = (\<lambda>_. []),
                indir = os_path_join awd ''indata'',
                outdir = os_path_join awd ''outdata'',
                tmpdir = os_path_join awd ''tmpdata'' \<rparr>)"

subsection \<open>Resource accounting\<close>

text \<open>
  \<^verbatim>\<open>
  ncpus = 0
  for task in self:
      if task.status == task.S_SUB:          # ncpus_reserved
      if task.status in [task.S_SUB, task.S_RUN]:   # ncpus_allocated
      if task.status == task.S_RUN:          # ncpus_inuse
          ncpus += task.tot_ncpus
  return ncpus
  \<close>
\<close>

definition ncpus_reserved :: "status_codes \<Rightarrow> ('m, 'z) workflow_scheme \<Rightarrow> int" where
  "ncpus_reserved K w =
     foldl (\<lambda>ncpus t. if status t = S_SUB K then ncpus + tot_ncpus t else ncpus) 0 (tasks w)"

definition ncpus_allocated :: "status_codes \<Rightarrow> ('m, 'z) workflow_scheme \<Rightarrow> int" where
  "ncpus_allocated K w =
     foldl (\<lambda>ncpus t. if status t \<in> set [S_SUB K, S_RUN K] then ncpus + tot_ncpus t else ncpus)
       0 (tasks w)"

definition ncpus_inuse :: "status_codes \<Rightarrow> ('m, 'z) workflow_scheme \<Rightarrow> int" where
  "ncpus_inuse K w =
     foldl (\<lambda>ncpus t. if status t = S_RUN K then ncpus + tot_ncpus t else ncpus) 0 (tasks w)"

subsection \<open>Status propagation\<close>

text \<open>
  \<^verbatim>\<open>
  def check_status(self):
      for task in self:
          task.check_status()
      for task in self:
          if task.status <= task.S_SUB:
              all_ok = all([stat == task.S_OK for stat in task.links_status])
              if all_ok:
                  task.set_status(task.S_READY)
  \<close>
  \<open>Task.check_status\<close> refreshes the task from its external process; it is the parameter
  \<open>task_check_status\<close>. The second loop updates the tasks in place, one position after
  the other, so that a later task sees the statuses already changed.
\<close>

definition all_ok :: "status_codes \<Rightarrow> task list \<Rightarrow> task \<Rightarrow> bool" where
  "all_ok K ts t = list_all (\<lambda>stat. stat = S_OK K) (links_status ts t)"

definition check_status_step :: "status_codes \<Rightarrow> nat \<Rightarrow> task list \<Rightarrow> task list" where
  "check_status_step K i ts =
     (let t = ts ! i in
      if status t \<le> S_SUB K then
        (if all_ok K ts t then ts[i := set_status t (S_READY K)] else ts)
      else ts)"

definition check_status_refresh :: "(task \<Rightarrow> task) \<Rightarrow> task list \<Rightarrow> task list" where
  "check_status_refresh task_check_status ts = map task_check_status ts"

definition check_status_propagate :: "status_codes \<Rightarrow> task list \<Rightarrow> task list" where
  "check_status_propagate K ts = fold (check_status_step K) [0..<length ts] ts"

definition check_status ::
  "status_codes \<Rightarrow> (task \<Rightarrow> task) \<Rightarrow> ('m, 'z) workflow_scheme \<Rightarrow> ('m, 'z) workflow_scheme" where
  "check_status K task_check_status w =
     w\<lparr>tasks := check_status_propagate K (check_status_refresh task_check_status (tasks w))\<rparr>"

text \<open>
  \<^verbatim>\<open>
  def get_all_status(self, only_min=False):
      self.check_status()
      status_list = [task.status for task in self]
      if only_min:
          return min(status_list)
      else:
          return status_list
  \<close>
  \<^verbatim>\<open>min\<close> of an empty list raises \<open>ValueError\<close>.
\<close>

datatype status_result = MinStatus int | StatusList "int list"

fun py_min :: "int list \<Rightarrow> error + int" where
  "py_min [] = Inl (ValueError ''min() arg is an empty sequence'')"
| "py_min (x # xs) = Inr (foldl min x xs)"

definition get_all_status ::
  "status_codes \<Rightarrow> (task \<Rightarrow> task) \<Rightarrow> bool \<Rightarrow> ('m, 'z) workflow_scheme \<Rightarrow>
   ('m, 'z) workflow_scheme \<times> (error + status_result)" where
  "get_all_status K task_check_status only_min w =
     (let w' = check_status K task_check_status w;
          status_list = map status (tasks w')
      in if only_min then
           (case py_min status_list of
              Inl e \<Rightarrow> (w', Inl e)
            | Inr m \<Rightarrow> (w', Inr (MinStatus m)))
         else (w', Inr (StatusList status_list)))"

text \<open>The property \<open>Workflow.status\<close>: \<^verbatim>\<open>return self.get_all_status(only_min=True)\<close>.\<close>

definition workflow_status ::
  "status_codes \<Rightarrow> (task \<Rightarrow> task) \<Rightarrow> ('m, 'z) workflow_scheme \<Rightarrow>
   ('m, 'z) workflow_scheme \<times> (error + status_result)" where
  "workflow_status K task_check_status w = get_all_status K task_check_status True w"

subsection \<open>The scheduler\<close>

text \<open>
  \<^verbatim>\<open>
  def fetch_task_to_run(self):
      self.check_status()
      for task in self:
          print(task.str_status, [task.links_status])
          if task.can_run:
              return task
      if all([task.is_completed for task in self]):
          raise StopIteration("All tasks completed.")
      logger.warning("Possible deadlock in fetch_task_to_run!")
      return None
  \<close>
  The properties \<open>Task.can_run\<close> and \<open>Task.is_completed\<close> are defined in \<^verbatim>\<open>task.py\<close>; they
  are parameters, read in the current list of tasks at a position. The returned task is
  given by its position. The warnings of the logger are collected in a list; the
  \<^verbatim>\<open>print\<close> of the loop is left out.
\<close>

text \<open>The loop: the first position from \<open>i\<close> on whose task can run.\<close>

fun first_can_run :: "(task list \<Rightarrow> nat \<Rightarrow> bool) \<Rightarrow> task list \<Rightarrow> nat \<Rightarrow> nat \<Rightarrow> nat option" where
  "first_can_run can_run ts i 0 = None"
| "first_can_run can_run ts i (Suc n) =
     (if can_run ts i then Some i else first_can_run can_run ts (Suc i) n)"

definition fetch_task_to_run ::
  "status_codes \<Rightarrow> (task \<Rightarrow> task) \<Rightarrow> (task list \<Rightarrow> nat \<Rightarrow> bool) \<Rightarrow> (task list \<Rightarrow> nat \<Rightarrow> bool) \<Rightarrow>
   ('m, 'z) workflow_scheme \<times> string list \<Rightarrow>
   (('m, 'z) workflow_scheme \<times> string list) \<times> (error + nat option)" where
  "fetch_task_to_run K task_check_status can_run is_completed st =
     (let w = check_status K task_check_status (fst st);
          logged = snd st
      in case first_can_run can_run (tasks w) 0 (length (tasks w)) of
           Some i \<Rightarrow> ((w, logged), Inr (Some i))
         | None \<Rightarrow>
             if list_all (is_completed (tasks w)) [0..<length (tasks w)]
             then ((w, logged), Inl StopIteration)
             else ((w, logged @ [''Possible deadlock in fetch_task_to_run!'']), Inr None))"

subsection \<open>Registration\<close>

text \<open>
  \<^verbatim>\<open>
  def register(self, obj, links=(), manager=None, task_class=None):
      if links and not isinstance(links, collections.Iterable):
          links = [links,]
      task_id = len(self)
      task_workdir = os.path.join(self.workdir, "task_" + str(task_id))
      manager = self.manager.deepcopy() if manager is None else manager.deepcopy()
      if isinstance(obj, Strategy):
          task = task_factory(obj, task_workdir, manager, task_id=task_id, links=links)
      else:
          task = AbinitTask.from_input(obj, task_workdir, manager, task_id=task_id, links=links)
      if task_class is not None:
          task.__class__ = task_class
      self._tasks.append(task)
      if links:
          self._links_dict[task_id].extend(links)
      return Link(task)
  \<close>
  The object to register is a \<open>Strategy\<close>, an input object, or anything else; the test of
  the code tells a \<open>Strategy\<close> from all the rest. The two constructors \<open>task_factory\<close> and
  \<open>AbinitTask.from_input\<close> are defined in \<^verbatim>\<open>task.py\<close>, and \<open>deepcopy\<close> is a method of
  the manager; the three are parameters, and each may raise. The messages of
  \<^verbatim>\<open>logger.debug\<close> are left out.
\<close>

datatype 'o job_spec = Strategy 'o | AbinitInput 'o | OtherObject 'o

fun is_Strategy :: "'o job_spec \<Rightarrow> bool" where
  "is_Strategy (Strategy s) = True"
| "is_Strategy (AbinitInput i) = False"
| "is_Strategy (OtherObject x) = False"

text \<open>The argument \<open>links\<close>: one \<open>Link\<close>, or a list (the default is the empty tuple).\<close>

datatype links_arg = OneLink link | LinkList "link list"

fun links_of :: "links_arg \<Rightarrow> link list" where
  "links_of (OneLink l) = [l]"
| "links_of (LinkList ls) = ls"

definition digit_char :: "nat \<Rightarrow> char" where
  "digit_char n = ''0123456789'' ! n"

fun str_nat :: "nat \<Rightarrow> string" where
  "str_nat n = (if n < 10 then [digit_char n] else str_nat (n div 10) @ [digit_char (n mod 10)])"

declare str_nat.simps [simp del]

type_synonym ('o, 'm) task_constructor =
  "'o job_spec \<Rightarrow> string \<Rightarrow> 'm \<Rightarrow> nat \<Rightarrow> link list \<Rightarrow> error + task"

text \<open>
  The argument \<open>task_class\<close>. The assignment \<^verbatim>\<open>task.__class__ = task_class\<close> is accepted
  by the interpreter for a class whose instances have the layout of the task (an
  \<open>AbinitTask\<close> subclass, as the docstring asks), and raises \<open>TypeError\<close> for any other
  object.
\<close>

datatype class_arg = TaskClass string | NotATaskClass string

fun assign_class :: "task \<Rightarrow> class_arg option \<Rightarrow> error + task" where
  "assign_class t None = Inr t"
| "assign_class t (Some (TaskClass c)) = Inr (t\<lparr>task_class := c\<rparr>)"
| "assign_class t (Some (NotATaskClass c)) = Inl TypeError"

definition register ::
  "('m \<Rightarrow> error + 'm) \<Rightarrow> ('o, 'm) task_constructor \<Rightarrow> ('o, 'm) task_constructor \<Rightarrow>
   'o job_spec \<Rightarrow> links_arg \<Rightarrow> 'm option \<Rightarrow> class_arg option \<Rightarrow>
   ('m, 'z) workflow_scheme \<Rightarrow> ('m, 'z) workflow_scheme \<times> (error + link)" where
  "register deepcopy task_factory from_input obj lnks mgr tclass w =
     (let lks = links_of lnks;
          tid = length (tasks w);
          twd = os_path_join (workdir w) (''task_'' @ str_nat tid)
      in case deepcopy (case mgr of None \<Rightarrow> manager w | Some m \<Rightarrow> m) of
           Inl e \<Rightarrow> (w, Inl e)
         | Inr mg \<Rightarrow>
             (case (if is_Strategy obj then task_factory obj twd mg tid lks
                    else from_input obj twd mg tid lks) of
                Inl e \<Rightarrow> (w, Inl e)
              | Inr t \<Rightarrow>
                  (case assign_class t tclass of
                     Inl e \<Rightarrow> (w, Inl e)
                   | Inr t' \<Rightarrow>
                       (let w1 = w\<lparr>tasks := tasks w @ [t']\<rparr>;
                            w2 = (if lks \<noteq> []
                                  then w1\<lparr>links_dict :=
                                           (links_dict w1)(tid := links_dict w1 tid @ lks)\<rparr>
                                  else w1)
                        in (w2, Inr \<lparr> node = tid, products = [] \<rparr>)))))"

text \<open>
  Modelled from the spec: \<open>AbinitTask.from_input\<close>, which is defined in \<^verbatim>\<open>task.py\<close> and
  decides what \<open>register\<close> does with an object that is not a \<open>Strategy\<close>. The spec: a job
  specification is a strategy object or "a raw, already-fully-specified input object
  (orchestrator constructs a generic Task directly). Fails with
  \<open>UnsupportedJobSpecError\<close> otherwise." The generic task built from an input object is
  the parameter \<open>generic_task\<close>.
\<close>

definition from_input_spec ::
  "('o job_spec \<Rightarrow> string \<Rightarrow> 'm \<Rightarrow> nat \<Rightarrow> link list \<Rightarrow> task) \<Rightarrow> ('o, 'm) task_constructor" where
  "from_input_spec generic_task obj wd mg tid lks =
     (case obj of
        AbinitInput i \<Rightarrow> Inr (generic_task obj wd mg tid lks)
      | Strategy s \<Rightarrow> Inl InvalidJobSpecError
      | OtherObject x \<Rightarrow> Inl InvalidJobSpecError)"

subsection \<open>Iterative workflows\<close>

text \<open>
  A Python generator: \<open>items g n\<close> is the \<open>n\<close>-th object it yields, \<open>None\<close> once it is
  exhausted; \<open>pos g\<close> counts the objects taken so far.
\<close>

record 'o generator =
  items :: "nat \<Rightarrow> 'o option"
  pos :: nat

definition gen_next :: "'o generator \<Rightarrow> 'o generator \<times> (error + 'o)" where
  "gen_next g =
     (case items g (pos g) of
        None \<Rightarrow> (g, Inl StopIteration)
      | Some x \<Rightarrow> (g\<lparr>pos := Suc (pos g)\<rparr>, Inr x))"

text \<open>
  \<open>IterativeWork.__init__\<close> sets \<open>strategy_generator\<close> and \<open>max_niter\<close>; the attribute
  \<open>niter\<close> exists only once \<open>submit_tasks\<close> has assigned it.
\<close>

record ('m, 'o) iterative_work = "'m workflow" +
  strategy_generator :: "'o job_spec generator"
  max_niter :: int
  niter :: "int option"

text \<open>
  \<^verbatim>\<open>
  def next_task(self):
      try:
          next_strategy = next(self.strategy_generator)
      except StopIteration:
          raise StopIteration
      self.register(next_strategy)
      assert len(self) == self.niter
      return self[-1]
  \<close>
  The returned task is given by its position.
\<close>

definition next_task ::
  "('m \<Rightarrow> error + 'm) \<Rightarrow> ('o, 'm) task_constructor \<Rightarrow> ('o, 'm) task_constructor \<Rightarrow>
   ('m, 'o) iterative_work \<Rightarrow> ('m, 'o) iterative_work \<times> (error + nat)" where
  "next_task deepcopy task_factory from_input w =
     (case gen_next (strategy_generator w) of
        (g, Inl e) \<Rightarrow> (w\<lparr>strategy_generator := g\<rparr>, Inl StopIteration)
      | (g, Inr next_strategy) \<Rightarrow>
          (case register deepcopy task_factory from_input next_strategy (LinkList []) None None
                  (w\<lparr>strategy_generator := g\<rparr>) of
             (w1, Inl e) \<Rightarrow> (w1, Inl e)
           | (w1, Inr lnk) \<Rightarrow>
               (case niter w1 of
                  None \<Rightarrow> (w1, Inl AttributeError)
                | Some n \<Rightarrow>
                    if int (length (tasks w1)) = n
                    then (w1, py_index [0..<length (tasks w1)] (- 1))
                    else (w1, Inl AssertionError))))"

text \<open>
  \<^verbatim>\<open>
  def submit_tasks(self, *args, **kwargs):
      self.niter = 1
      while True:
          if self.niter > self.max_niter > 0:
              break
          try:
              task = self.next_task()
          except StopIteration:
              break
          task.start(*args, **kwargs)
          task.wait()
          data = self.exit_iteration(*args, **kwargs)
          if data["exit"]:
              break
          self.niter += 1
  \<close>
  The loop has no bound of its own (a generator may yield for ever when \<open>max_niter\<close> is
  not positive), so it runs on fuel: \<open>None\<close> is a run that has not ended within the
  fuel. \<open>task_run\<close> is what \<^verbatim>\<open>task.start(); task.wait()\<close> does to the task, and
  \<open>exit_iteration\<close> is the value of \<^verbatim>\<open>data["exit"]\<close> of the abstract method; both are
  parameters.
\<close>

fun submit_loop ::
  "nat \<Rightarrow> ('m \<Rightarrow> error + 'm) \<Rightarrow> ('o, 'm) task_constructor \<Rightarrow> ('o, 'm) task_constructor \<Rightarrow>
   (task \<Rightarrow> task) \<Rightarrow> (('m, 'o) iterative_work \<Rightarrow> bool) \<Rightarrow> ('m, 'o) iterative_work \<Rightarrow>
   (('m, 'o) iterative_work \<times> (error + unit)) option" where
  "submit_loop 0 deepcopy task_factory from_input task_run exit_iteration w = None"
| "submit_loop (Suc fuel) deepcopy task_factory from_input task_run exit_iteration w =
     (case niter w of
        None \<Rightarrow> Some (w, Inl AttributeError)
      | Some n \<Rightarrow>
          if n > max_niter w \<and> max_niter w > 0 then Some (w, Inr ())
          else
            (case next_task deepcopy task_factory from_input w of
               (w1, Inl e) \<Rightarrow>
                 if e = StopIteration then Some (w1, Inr ()) else Some (w1, Inl e)
             | (w1, Inr i) \<Rightarrow>
                 (let w2 = w1\<lparr>tasks := (tasks w1)[i := task_run (tasks w1 ! i)]\<rparr> in
                  if exit_iteration w2 then Some (w2, Inr ())
                  else
                    (case niter w2 of
                       None \<Rightarrow> Some (w2, Inl AttributeError)
                     | Some m \<Rightarrow>
                         submit_loop fuel deepcopy task_factory from_input task_run
                           exit_iteration (w2\<lparr>niter := Some (m + 1)\<rparr>)))))"

definition submit_tasks ::
  "nat \<Rightarrow> ('m \<Rightarrow> error + 'm) \<Rightarrow> ('o, 'm) task_constructor \<Rightarrow> ('o, 'm) task_constructor \<Rightarrow>
   (task \<Rightarrow> task) \<Rightarrow> (('m, 'o) iterative_work \<Rightarrow> bool) \<Rightarrow> ('m, 'o) iterative_work \<Rightarrow>
   (('m, 'o) iterative_work \<times> (error + unit)) option" where
  "submit_tasks fuel deepcopy task_factory from_input task_run exit_iteration w =
     submit_loop fuel deepcopy task_factory from_input task_run exit_iteration
       (w\<lparr>niter := Some 1\<rparr>)"

section \<open>Results\<close>

text \<open>
  \<open>WorkFlowResults\<close> is a dictionary whose key \<^verbatim>\<open>"_exceptions"\<close> holds a list of strings
  (\<open>__init__\<close> creates it); the other entries are \<open>entries\<close>.
  \<^verbatim>\<open>
  def push_exceptions(self, *exceptions):
      for exc in exceptions:
          newstr = str(exc)
          if newstr not in self.exceptions:
              self[self._EXC_KEY] += [newstr,]
  \<close>
  \<open>str\<close> is Python's conversion of the pushed object to a string, a parameter.
\<close>

record 'v workflow_results =
  entries :: "string \<Rightarrow> 'v option"
  exceptions :: "string list"

definition push_exception :: "('e \<Rightarrow> string) \<Rightarrow> 'v workflow_results \<Rightarrow> 'e \<Rightarrow> 'v workflow_results" where
  "push_exception str r exc =
     (let newstr = str exc in
      if newstr \<notin> set (exceptions r) then r\<lparr>exceptions := exceptions r @ [newstr]\<rparr> else r)"

definition push_exceptions :: "('e \<Rightarrow> string) \<Rightarrow> 'v workflow_results \<Rightarrow> 'e list \<Rightarrow> 'v workflow_results" where
  "push_exceptions str r excs = foldl (push_exception str) r excs"

section \<open>Example states\<close>

text \<open>
  Concrete values on which the theorems below are run: a choice of status codes in the
  order the spec gives (\<open>READY < SUB < RUN < DONE < OK\<close>), tasks built from a
  position, a status, a number of CPUs and the positions of the tasks they depend on,
  and a workflow whose working directory is the absolute path \<^verbatim>\<open>/work\<close>.
\<close>

definition codes_example :: status_codes where
  "codes_example = \<lparr> S_READY = 1, S_SUB = 2, S_RUN = 3, S_DONE = 4, S_OK = 5 \<rparr>"

definition task_example :: "nat \<Rightarrow> int \<Rightarrow> int \<Rightarrow> nat list \<Rightarrow> task" where
  "task_example i s n deps =
     \<lparr> task_id = i, status = s, tot_ncpus = n,
       links = map (\<lambda>d. \<lparr> node = d, products = [] \<rparr>) deps,
       task_workdir = os_path_join ''/work'' (''task_'' @ str_nat i),
       task_class = ''AbinitTask'' \<rparr>"

definition workflow_example :: "task list \<Rightarrow> unit workflow" where
  "workflow_example ts =
     \<lparr> workdir = ''/work'', manager = (), tasks = ts, links_dict = (\<lambda>_. []),
       indir = ''/work/indata'', outdir = ''/work/outdata'', tmpdir = ''/work/tmpdata'' \<rparr>"

text \<open>
  Task constructors for the examples: one builds a task from any object it is given
  and never raises, the other always raises.
\<close>

definition accept_any :: "('o, 'm) task_constructor" where
  "accept_any obj wd mg tid lks =
     Inr \<lparr> task_id = tid, status = 0, tot_ncpus = 1, links = lks,
           task_workdir = wd, task_class = ''AbinitTask'' \<rparr>"

definition reject_all :: "('o, 'm) task_constructor" where
  "reject_all obj wd mg tid lks = Inl (ExternalError ''cannot build a task'')"

text \<open>The generic task built from an input object, for the examples.\<close>

definition generic_example :: "'o job_spec \<Rightarrow> string \<Rightarrow> 'm \<Rightarrow> nat \<Rightarrow> link list \<Rightarrow> task" where
  "generic_example obj wd mg tid lks =
     \<lparr> task_id = tid, status = 0, tot_ncpus = 1, links = lks,
       task_workdir = wd, task_class = ''AbinitTask'' \<rparr>"

text \<open>
  Modelled from the spec: \<open>Task.can_run\<close> and \<open>Task.is_completed\<close>, defined in \<^verbatim>\<open>task.py\<close>,
  for the examples only. The spec: \<open>canRun\<close> is true iff the status indicates readiness
  and no dependency is unmet; a status of at least \<open>DONE\<close> is finished.
\<close>

definition can_run_example :: "status_codes \<Rightarrow> task list \<Rightarrow> nat \<Rightarrow> bool" where
  "can_run_example K ts i = (status (ts ! i) = S_READY K \<and> all_ok K ts (ts ! i))"

definition is_completed_example :: "status_codes \<Rightarrow> task list \<Rightarrow> nat \<Rightarrow> bool" where
  "is_completed_example K ts i = (status (ts ! i) \<ge> S_DONE K)"

text \<open>
  An iterative workflow with no task yet, whose generator yields a strategy for ever.
\<close>

definition iterative_example :: "int \<Rightarrow> (unit, unit) iterative_work" where
  "iterative_example n =
     \<lparr> workdir = ''/work'', manager = (), tasks = [], links_dict = (\<lambda>_. []),
       indir = ''/work/indata'', outdir = ''/work/outdata'', tmpdir = ''/work/tmpdata'',
       strategy_generator = \<lparr> items = (\<lambda>k. Some (Strategy ())), pos = 0 \<rparr>,
       max_niter = n, niter = None \<rparr>"

section \<open>Properties of the convergence analysis\<close>

subsection \<open>The scan and the negative indices\<close>

lemma conv_scan_none:
  "0 < k \<Longrightarrow> (\<And>j. j < k \<Longrightarrow> \<not> dev_gt (vdiff ! j) tol) \<Longrightarrow> conv_scan vdiff tol k i = 0"
proof (induction k arbitrary: i)
  case 0
  then show ?case by simp
next
  case (Suc k)
  have le: "\<not> dev_gt (vdiff ! k) tol" using Suc.prems(2) [of k] by simp
  show ?case
  proof (cases k)
    case 0
    with le show ?thesis by simp
  next
    case (Suc k')
    have "conv_scan vdiff tol k (int k) = 0"
      using Suc.IH [of "int k"] Suc.prems(2) Suc by simp
    with le show ?thesis by simp
  qed
qed

lemma conv_scan_last:
  "j < k \<Longrightarrow> dev_gt (vdiff ! j) tol \<Longrightarrow>
   (\<And>j'. j < j' \<Longrightarrow> j' < k \<Longrightarrow> \<not> dev_gt (vdiff ! j') tol)
   \<Longrightarrow> conv_scan vdiff tol k i = int j"
proof (induction k arbitrary: i)
  case 0
  then show ?case by simp
next
  case (Suc k)
  show ?case
  proof (cases "j = k")
    case True
    with Suc.prems(2) show ?thesis by simp
  next
    case False
    with Suc.prems(1) have jk: "j < k" by simp
    have le: "\<not> dev_gt (vdiff ! k) tol" using Suc.prems(3) [of k] jk by simp
    have "conv_scan vdiff tol k (int k) = int j"
      using Suc.IH [of "int k"] jk Suc.prems(2) Suc.prems(3) by simp
    with le show ?thesis by simp
  qed
qed

lemma py_index_minus2:
  "2 \<le> length xs \<Longrightarrow> py_index xs (- 2) = Inr (xs ! (length xs - 2))"
proof -
  assume a: "2 \<le> length xs"
  then have "nat (int (length xs) + - 2) = length xs - 2" by linarith
  with a show ?thesis by (simp add: py_index_def)
qed

lemma py_index_minus1:
  "xs \<noteq> [] \<Longrightarrow> py_index xs (- 1) = Inr (last xs)"
proof -
  assume a: "xs \<noteq> []"
  then have l: "Suc 0 \<le> length xs" by (cases xs) simp_all
  then have "nat (int (length xs) + - 1) = length xs - 1" by linarith
  with a l show ?thesis by (simp add: py_index_def last_conv_nth)
qed

lemma check_conv_abs_default:
  "vals \<noteq> [] \<Longrightarrow>
   check_conv zdiv vals tol m ''abs'' None =
     conv_index (map (\<lambda>v. Fin \<bar>v - last vals\<bar>) vals) tol m"
  by (simp add: check_conv_def conv_vinf_def conv_vdiff_def py_index_minus1)

subsection \<open>What \<open>check_conv\<close> returns with the default reference\<close>

text \<open>
  When the guard passes and some deviation exceeds the tolerance, the loop stops at
  the last such position \<open>j\<close>, and the result is \<open>j + 1\<close>, the leftmost index from which
  every deviation is within the tolerance, or \<open>-1\<close> when fewer than \<open>min_numpts\<close> points
  remain.
\<close>

lemma check_conv_abs_leftmost:
  assumes len: "2 \<le> length vals"
    and pts: "int (length vals) > m"
    and guard: "\<bar>vals ! (length vals - 2) - last vals\<bar> < tol"
    and j: "j < length vals" "\<bar>vals ! j - last vals\<bar> > tol"
    and after: "\<And>j'. j < j' \<Longrightarrow> j' < length vals \<Longrightarrow> \<bar>vals ! j' - last vals\<bar> \<le> tol"
  shows "check_conv zdiv vals tol m ''abs'' None =
           Inr (if int (length vals) - (int j + 1) < m then - 1 else int j + 1)"
proof -
  let ?vd = "map (\<lambda>v. Fin \<bar>v - last vals\<bar>) vals"
  have ne: "vals \<noteq> []" using len by (cases vals) simp_all
  have l2: "2 \<le> length ?vd" using len by simp
  have d2: "py_index ?vd (- 2) = Inr (Fin \<bar>vals ! (length vals - 2) - last vals\<bar>)"
    using py_index_minus2 [OF l2] len by simp
  have sc: "conv_scan ?vd tol (length ?vd) (- 2) = int j"
  proof (rule conv_scan_last)
    show "j < length ?vd" using j by simp
  next
    show "dev_gt (?vd ! j) tol" using j by simp
  next
    fix j' assume "j < j'" "j' < length ?vd"
    then show "\<not> dev_gt (?vd ! j') tol" using after [of j'] by simp
  qed
  have "conv_index ?vd tol m = Inr (if int (length vals) - (int j + 1) < m then - 1 else int j + 1)"
    using pts guard d2 sc by (simp add: conv_index_def Let_def algebra_simps)
  then show ?thesis using check_conv_abs_default [OF ne, of zdiv tol m] by simp
qed

text \<open>
  When no deviation exceeds the tolerance, the loop ends without a \<^verbatim>\<open>break\<close> and leaves
  \<open>i = 0\<close>, so the result is \<open>1\<close>, although index \<open>0\<close> is within the tolerance as well.
\<close>

lemma check_conv_abs_all_within:
  assumes len: "2 \<le> length vals"
    and pts: "int (length vals) > m"
    and guard: "\<bar>vals ! (length vals - 2) - last vals\<bar> < tol"
    and within: "\<And>j. j < length vals \<Longrightarrow> \<bar>vals ! j - last vals\<bar> \<le> tol"
  shows "check_conv zdiv vals tol m ''abs'' None = Inr 1"
proof -
  let ?vd = "map (\<lambda>v. Fin \<bar>v - last vals\<bar>) vals"
  have ne: "vals \<noteq> []" using len by (cases vals) simp_all
  have l2: "2 \<le> length ?vd" using len by simp
  have d2: "py_index ?vd (- 2) = Inr (Fin \<bar>vals ! (length vals - 2) - last vals\<bar>)"
    using py_index_minus2 [OF l2] len by simp
  have sc: "conv_scan ?vd tol (length ?vd) (- 2) = 0"
  proof (rule conv_scan_none)
    show "0 < length ?vd" using ne by simp
  next
    fix j assume "j < length ?vd"
    then show "\<not> dev_gt (?vd ! j) tol" using within [of j] by simp
  qed
  have "conv_index ?vd tol m = Inr 1"
    using pts guard d2 sc by (simp add: conv_index_def Let_def)
  then show ?thesis using check_conv_abs_default [OF ne, of zdiv tol m] by simp
qed

text \<open>When the guard fails, the result is the sentinel.\<close>

lemma check_conv_abs_guard_fails:
  assumes "length vals \<noteq> 1 \<or> m \<ge> 1" "vals \<noteq> []"
    and "int (length vals) \<le> m \<or> \<not> \<bar>vals ! (length vals - 2) - last vals\<bar> < tol"
  shows "check_conv zdiv vals tol m ''abs'' None = Inr (- 1)"
proof -
  let ?vd = "map (\<lambda>v. Fin \<bar>v - last vals\<bar>) vals"
  have ne: "vals \<noteq> []" using assms by auto
  show ?thesis
  proof (cases "int (length vals) \<le> m")
    case True
    then show ?thesis using check_conv_abs_default [OF ne, of zdiv tol m] by (simp add: conv_index_def Let_def)
  next
    case False
    have "length vals \<noteq> 0" using ne by simp
    with False assms(1) have "2 \<le> length vals" by linarith
    then have l2: "2 \<le> length ?vd" by simp
    have d2: "py_index ?vd (- 2) = Inr (Fin \<bar>vals ! (length vals - 2) - last vals\<bar>)"
      using py_index_minus2 [OF l2] l2 by simp
    show ?thesis using check_conv_abs_default [OF ne, of zdiv tol m] False assms(3) d2
      by (simp add: conv_index_def Let_def)
  qed
qed

text \<open>
  Claim C1. \<open>check_conv\<close> with the default reference is to return the leftmost index
  from which every deviation is within the tolerance: index \<open>0\<close> for the series
  \<open>[10, 10, 10, 9.9999, 9.99999]\<close> with tolerance \<open>1e-3\<close> and one minimum point, where
  every point deviates from the last by less than the tolerance. The code returns \<open>1\<close>
  on this input: the loop ends without a \<^verbatim>\<open>break\<close>, the loop variable stays at \<open>0\<close>, and
  \<open>i + 1\<close> is returned.
\<close>

theorem check_conv_all_within_example:
  "check_conv zdiv [10, 10, 10, 99999 / 10000, 999999 / 100000] (1 / 1000) 1 ''abs'' None = Inr 1"
  by (simp add: check_conv_def conv_vinf_def conv_vdiff_def conv_index_def py_index_def)

text \<open>The oscillating series of the same claim gives the sentinel.\<close>

lemma check_conv_oscillating_example:
  "check_conv zdiv [1, 5, 1, 5, 1] (1 / 1000) 1 ''abs'' None = Inr (- 1)"
  by (simp add: check_conv_def conv_vinf_def conv_vdiff_def conv_index_def py_index_def)

text \<open>
  The guard on the second-to-last point is strict, while the scan counts a deviation
  equal to the tolerance as converged: when the second-to-last deviation equals the
  tolerance, the result is the sentinel, although from index \<open>1\<close> on no deviation
  exceeds the tolerance.
\<close>

lemma check_conv_guard_equality_example:
  "check_conv zdiv [2, 3 / 2, 1] (1 / 2) 1 ''abs'' None = Inr (- 1)"
  by (simp add: check_conv_def conv_vinf_def conv_vdiff_def conv_index_def py_index_def)

text \<open>
  Claim C2, as stated: in relative mode with a zero reference \<open>check_conv\<close> fails with a
  descriptive error of its own, for every list. It does not: with built-in numbers and
  a non-empty list the unguarded division raises the interpreter's \<open>ZeroDivisionError\<close>,
  and with an empty list and \<open>vinf = 0\<close> nothing is divided and the index \<open>-1\<close> is
  returned.
\<close>

theorem check_conv_rel_zero_counterexample:
  "check_conv ZRaises [1] (1 / 1000) 1 ''rel'' (Some 0) = Inl ZeroDivisionError
   \<and> check_conv ZRaises [] (1 / 1000) 1 ''rel'' (Some 0) = Inr (- 1)"
  by (simp add: check_conv_def conv_vinf_def conv_vdiff_def conv_index_def py_index_def
      rel_div_def)

subsection \<open>Relative mode with a zero reference\<close>

lemma conv_vinf_zero:
  "vinf = Some 0 \<or> (vinf = None \<and> vals \<noteq> [] \<and> last vals = 0) \<Longrightarrow> conv_vinf vals vinf = Inr 0"
  by (auto simp: conv_vinf_def py_index_minus1)

lemma comprehension_raises:
  "vals \<noteq> [] \<Longrightarrow> comprehension (\<lambda>v. rel_div ZRaises \<bar>v - 0\<bar> 0) vals = Inl ZeroDivisionError"
  by (cases vals) (simp_all add: rel_div_def)

lemma comprehension_plus:
  "comprehension (\<lambda>v. rel_div ZPlus \<bar>v - 0\<bar> 0) vals =
     Inr (map (\<lambda>v. if v = 0 then NaN else PosInf) vals)"
  by (induction vals) (simp_all add: rel_div_def)

lemma comprehension_minus:
  "comprehension (\<lambda>v. rel_div ZMinus \<bar>v - 0\<bar> 0) vals =
     Inr (map (\<lambda>v. if v = 0 then NaN else NegInf) vals)"
  by (induction vals) (simp_all add: rel_div_def)

lemma conv_index_short:
  "length vd < 2 \<Longrightarrow>
   conv_index vd tol m = (if m < int (length vd) then Inl IndexError else Inr (- 1))"
  by (simp add: conv_index_def Let_def py_index_def)

lemma conv_index_plus:
  fixes vals :: "real list"
  assumes "2 \<le> length vals"
  shows "conv_index (map (\<lambda>v. if v = 0 then NaN else PosInf) vals) tol m = Inr (- 1)"
proof -
  let ?vd = "map (\<lambda>v::real. if v = 0 then NaN else PosInf) vals"
  have l2: "2 \<le> length ?vd" using assms by simp
  have "py_index ?vd (- 2) = Inr (?vd ! (length ?vd - 2))" using py_index_minus2 [OF l2] .
  moreover have "\<not> dev_lt (?vd ! (length ?vd - 2)) tol" using assms by simp
  ultimately show ?thesis by (simp add: conv_index_def Let_def)
qed

lemma conv_index_minus:
  fixes vals :: "real list"
  assumes "2 \<le> length vals"
  shows "conv_index (map (\<lambda>v. if v = 0 then NaN else NegInf) vals) tol m =
           (if m < int (length vals) \<and> vals ! (length vals - 2) \<noteq> 0 then Inr 1 else Inr (- 1))"
proof -
  let ?vd = "map (\<lambda>v::real. if v = 0 then NaN else NegInf) vals"
  have l2: "2 \<le> length ?vd" using assms by simp
  have l0: "0 < length ?vd" using l2 by linarith
  have d2: "py_index ?vd (- 2) = Inr (?vd ! (length ?vd - 2))" using py_index_minus2 [OF l2] .
  have g: "dev_lt (?vd ! (length ?vd - 2)) tol = (vals ! (length vals - 2) \<noteq> 0)"
    using assms by simp
  have sc: "conv_scan ?vd tol (length ?vd) (- 2) = 0"
  proof (rule conv_scan_none [OF l0])
    fix j assume "j < length ?vd"
    then show "\<not> dev_gt (?vd ! j) tol" by simp
  qed
  show ?thesis using d2 g sc by (simp add: conv_index_def Let_def)
qed

text \<open>
  Claim C2, amended: \<open>check_conv\<close> does not guard the division by the reference, and in
  relative mode with a zero reference (explicit \<open>vinf = 0\<close>, or the default reference
  when the last value is \<open>0\<close>) it never raises an error of its own. For a non-empty
  list: with built-in numbers the interpreter raises \<open>ZeroDivisionError\<close>; with numpy
  numbers nothing is raised by the division, the deviations are infinities and NaNs,
  and an index is returned, \<open>-1\<close> when the reference is \<open>+0.0\<close>, and \<open>1\<close> or \<open>-1\<close> when it
  is \<open>-0.0\<close> (\<open>IndexError\<close> for a single value and \<open>min_numpts < 1\<close>). For the empty list
  with \<open>vinf = 0\<close> nothing is divided and \<open>-1\<close> is returned (\<open>IndexError\<close> when
  \<open>min_numpts\<close> is negative).
\<close>

theorem check_conv_rel_zero_reference:
  "vinf = Some 0 \<or> (vinf = None \<and> vals \<noteq> [] \<and> last vals = 0) \<longrightarrow>
     (\<forall>msg. check_conv zdiv vals tol m ''rel'' vinf \<noteq> Inl (ValueError msg))
   \<and> (vals \<noteq> [] \<and> zdiv = ZRaises \<longrightarrow>
        check_conv zdiv vals tol m ''rel'' vinf = Inl ZeroDivisionError)
   \<and> (vals \<noteq> [] \<and> zdiv = ZPlus \<longrightarrow>
        check_conv zdiv vals tol m ''rel'' vinf =
          (if m < int (length vals) \<and> length vals < 2 then Inl IndexError else Inr (- 1)))
   \<and> (vals \<noteq> [] \<and> zdiv = ZMinus \<longrightarrow>
        check_conv zdiv vals tol m ''rel'' vinf =
          (if m < int (length vals)
           then (if length vals < 2 then Inl IndexError
                 else if vals ! (length vals - 2) = 0 then Inr (- 1) else Inr 1)
           else Inr (- 1)))
   \<and> (vals = [] \<longrightarrow>
        check_conv zdiv vals tol m ''rel'' vinf = (if m < 0 then Inl IndexError else Inr (- 1)))"
proof
  assume z: "vinf = Some 0 \<or> (vinf = None \<and> vals \<noteq> [] \<and> last vals = 0)"
  have v: "conv_vinf vals vinf = Inr 0" using conv_vinf_zero [OF z] .
  have unf: "check_conv zdiv vals tol m ''rel'' vinf =
     (case comprehension (\<lambda>v. rel_div zdiv \<bar>v - 0\<bar> 0) vals of
        Inl e \<Rightarrow> Inl e
      | Inr vdiff \<Rightarrow> conv_index vdiff tol m)"
    using v by (simp add: check_conv_def conv_vdiff_def)
  have r: "check_conv zdiv vals tol m ''rel'' vinf = Inl ZeroDivisionError"
    if "vals \<noteq> []" "zdiv = ZRaises"
    using that unf comprehension_raises [of vals] by simp
  have p: "check_conv zdiv vals tol m ''rel'' vinf =
          (if m < int (length vals) \<and> length vals < 2 then Inl IndexError else Inr (- 1))"
    if "vals \<noteq> []" "zdiv = ZPlus"
  proof (cases "2 \<le> length vals")
    case True
    then show ?thesis using that unf comprehension_plus [of vals] conv_index_plus [OF True]
      by simp
  next
    case False
    then have "length (map (\<lambda>v::real. if v = 0 then NaN else PosInf) vals) < 2" by simp
    from conv_index_short [OF this, of tol m] False that unf comprehension_plus [of vals]
    show ?thesis by simp
  qed
  have n: "check_conv zdiv vals tol m ''rel'' vinf =
          (if m < int (length vals)
           then (if length vals < 2 then Inl IndexError
                 else if vals ! (length vals - 2) = 0 then Inr (- 1) else Inr 1)
           else Inr (- 1))"
    if "vals \<noteq> []" "zdiv = ZMinus"
  proof (cases "2 \<le> length vals")
    case True
    then show ?thesis using that unf comprehension_minus [of vals] conv_index_minus [OF True]
      by simp
  next
    case False
    then have "length (map (\<lambda>v::real. if v = 0 then NaN else NegInf) vals) < 2" by simp
    from conv_index_short [OF this, of tol m] False that unf comprehension_minus [of vals]
    show ?thesis by simp
  qed
  have e: "check_conv zdiv vals tol m ''rel'' vinf = (if m < 0 then Inl IndexError else Inr (- 1))"
    if "vals = []"
    using that unf by (simp add: conv_index_def py_index_def)
  have nv: "check_conv zdiv vals tol m ''rel'' vinf \<noteq> Inl (ValueError msg)" for msg
  proof (cases "vals = []")
    case True
    with e show ?thesis by simp
  next
    case False
    show ?thesis
    proof (cases zdiv)
      case ZRaises
      with False r show ?thesis by simp
    next
      case ZPlus
      with False p show ?thesis by simp
    next
      case ZMinus
      with False n show ?thesis by simp
    qed
  qed
  from r p n e nv show
    "(\<forall>msg. check_conv zdiv vals tol m ''rel'' vinf \<noteq> Inl (ValueError msg))
   \<and> (vals \<noteq> [] \<and> zdiv = ZRaises \<longrightarrow>
        check_conv zdiv vals tol m ''rel'' vinf = Inl ZeroDivisionError)
   \<and> (vals \<noteq> [] \<and> zdiv = ZPlus \<longrightarrow>
        check_conv zdiv vals tol m ''rel'' vinf =
          (if m < int (length vals) \<and> length vals < 2 then Inl IndexError else Inr (- 1)))
   \<and> (vals \<noteq> [] \<and> zdiv = ZMinus \<longrightarrow>
        check_conv zdiv vals tol m ''rel'' vinf =
          (if m < int (length vals)
           then (if length vals < 2 then Inl IndexError
                 else if vals ! (length vals - 2) = 0 then Inr (- 1) else Inr 1)
           else Inr (- 1)))
   \<and> (vals = [] \<longrightarrow>
        check_conv zdiv vals tol m ''rel'' vinf = (if m < 0 then Inl IndexError else Inr (- 1)))"
    by blast
qed

theorem check_conv_rel_zero_reference_witness:
  "check_conv ZRaises [3, 0] (1 / 1000) 1 ''rel'' None = Inl ZeroDivisionError
   \<and> check_conv ZPlus [3, 0] (1 / 1000) 1 ''rel'' None = Inr (- 1)
   \<and> check_conv ZMinus [3, 0] (1 / 1000) 1 ''rel'' None = Inr 1
   \<and> check_conv ZPlus [3] (1 / 1000) 0 ''rel'' (Some 0) = Inl IndexError
   \<and> check_conv ZRaises [] (1 / 1000) 1 ''rel'' (Some 0) = Inr (- 1)"
  using check_conv_rel_zero_reference [of None "[3, 0]" ZRaises "1 / 1000" 1]
        check_conv_rel_zero_reference [of None "[3, 0]" ZPlus "1 / 1000" 1]
        check_conv_rel_zero_reference [of None "[3, 0]" ZMinus "1 / 1000" 1]
        check_conv_rel_zero_reference [of "Some 0" "[3]" ZPlus "1 / 1000" 0]
        check_conv_rel_zero_reference [of "Some 0" "[]" ZRaises "1 / 1000" 1]
  by simp

section \<open>Properties of the workflow\<close>

subsection \<open>Resource accounting\<close>

lemma foldl_cpus_split:
  "S_SUB K \<noteq> S_RUN K \<Longrightarrow>
   foldl (\<lambda>ncpus t. if status t \<in> set [S_SUB K, S_RUN K] then ncpus + tot_ncpus t else ncpus) (a + b) ts
   = foldl (\<lambda>ncpus t. if status t = S_SUB K then ncpus + tot_ncpus t else ncpus) a ts
   + foldl (\<lambda>ncpus t. if status t = S_RUN K then ncpus + tot_ncpus t else ncpus) b ts"
proof (induction ts arbitrary: a b)
  case Nil
  then show ?case by simp
next
  case (Cons t ts)
  show ?case
  proof (cases "status t = S_SUB K")
    case True
    then have "status t \<noteq> S_RUN K" using Cons.prems by simp
    with True Cons.IH [OF Cons.prems, of "a + tot_ncpus t" b] show ?thesis
      by (simp add: add.assoc add.commute add.left_commute)
  next
    case False
    show ?thesis
    proof (cases "status t = S_RUN K")
      case True
      with False Cons.IH [OF Cons.prems, of a "b + tot_ncpus t"] show ?thesis
        by (simp add: add.assoc)
    next
      case F2: False
      with False Cons.IH [OF Cons.prems, of a b] show ?thesis by simp
    qed
  qed
qed

lemma foldl_cpus_sum:
  "foldl (\<lambda>ncpus t. if P t then ncpus + tot_ncpus t else ncpus) a ts
   = a + sum_list (map tot_ncpus (filter P ts))"
  by (induction ts arbitrary: a) simp_all

text \<open>
  Claim C10. In every state of the workflow, \<open>ncpus_allocated\<close> is the sum of
  \<open>ncpus_reserved\<close> and \<open>ncpus_inuse\<close>: a task counts its \<open>tot_ncpus\<close> in
  \<open>ncpus_allocated\<close> exactly when its status is \<open>SUB\<close> or \<open>RUN\<close>, in \<open>ncpus_reserved\<close>
  exactly when it is \<open>SUB\<close>, in \<open>ncpus_inuse\<close> exactly when it is \<open>RUN\<close>, and no task is
  in both. The two status codes are different numbers.
\<close>

theorem ncpus_allocated_split:
  assumes "S_SUB K \<noteq> S_RUN K"
  shows "ncpus_allocated K w = ncpus_reserved K w + ncpus_inuse K w
       \<and> ncpus_allocated K w =
           sum_list (map tot_ncpus (filter (\<lambda>t. status t = S_SUB K \<or> status t = S_RUN K) (tasks w)))
       \<and> ncpus_reserved K w = sum_list (map tot_ncpus (filter (\<lambda>t. status t = S_SUB K) (tasks w)))
       \<and> ncpus_inuse K w = sum_list (map tot_ncpus (filter (\<lambda>t. status t = S_RUN K) (tasks w)))
       \<and> (\<forall>t \<in> set (tasks w). \<not> (status t = S_SUB K \<and> status t = S_RUN K))"
proof -
  have 1: "ncpus_allocated K w = ncpus_reserved K w + ncpus_inuse K w"
    unfolding ncpus_allocated_def ncpus_reserved_def ncpus_inuse_def
    using foldl_cpus_split [OF assms, of 0 0 "tasks w"] by simp
  have 2: "ncpus_allocated K w =
             sum_list (map tot_ncpus (filter (\<lambda>t. status t = S_SUB K \<or> status t = S_RUN K) (tasks w)))"
    unfolding ncpus_allocated_def
    using foldl_cpus_sum [of "\<lambda>t. status t = S_SUB K \<or> status t = S_RUN K" 0 "tasks w"] by simp
  have 3: "ncpus_reserved K w = sum_list (map tot_ncpus (filter (\<lambda>t. status t = S_SUB K) (tasks w)))"
    unfolding ncpus_reserved_def by (simp add: foldl_cpus_sum)
  have 4: "ncpus_inuse K w = sum_list (map tot_ncpus (filter (\<lambda>t. status t = S_RUN K) (tasks w)))"
    unfolding ncpus_inuse_def by (simp add: foldl_cpus_sum)
  have 5: "\<forall>t \<in> set (tasks w). \<not> (status t = S_SUB K \<and> status t = S_RUN K)"
    using assms by auto
  from 1 2 3 4 5 show ?thesis by blast
qed

theorem ncpus_allocated_split_witness:
  "S_SUB codes_example \<noteq> S_RUN codes_example
   \<and> ncpus_allocated codes_example
        (workflow_example [task_example 0 2 2 [], task_example 1 3 4 [], task_example 2 5 8 []]) = 6
   \<and> ncpus_reserved codes_example
        (workflow_example [task_example 0 2 2 [], task_example 1 3 4 [], task_example 2 5 8 []]) = 2
   \<and> ncpus_inuse codes_example
        (workflow_example [task_example 0 2 2 [], task_example 1 3 4 [], task_example 2 5 8 []]) = 4"
  using ncpus_allocated_split [of codes_example
      "workflow_example [task_example 0 2 2 [], task_example 1 3 4 [], task_example 2 5 8 []]"]
  by (simp add: codes_example_def workflow_example_def task_example_def)

subsection \<open>Status propagation\<close>

text \<open>
  The second loop of \<open>check_status\<close> changes a status only from a value that is not \<open>OK\<close>
  (it is at most \<open>SUB\<close>) to \<open>READY\<close>, which is not \<open>OK\<close> either. So the test \<open>all_ok\<close> of
  every task has the same value before, during and after the loop, although the tasks
  are updated in place.
\<close>

lemma length_check_status_step: "length (check_status_step K i ts) = length ts"
  by (simp add: check_status_step_def Let_def)

lemma length_fold_step: "length (fold (check_status_step K) js ts) = length ts"
  by (induction js arbitrary: ts) (simp_all add: length_check_status_step)

lemma length_check_status: "length (tasks (check_status K tcs w)) = length (tasks w)"
  by (simp add: check_status_def check_status_propagate_def check_status_refresh_def length_fold_step)

lemma step_status:
  "i < length ts \<Longrightarrow>
   status (check_status_step K i ts ! k) =
     (if k = i \<and> status (ts ! i) \<le> S_SUB K \<and> all_ok K ts (ts ! i) then S_READY K else status (ts ! k))"
  by (simp add: check_status_step_def Let_def set_status_def nth_list_update)

lemma step_links:
  "i < length ts \<Longrightarrow> links (check_status_step K i ts ! k) = links (ts ! k)"
  by (simp add: check_status_step_def Let_def set_status_def nth_list_update)

lemma step_is_ok:
  assumes "S_SUB K < S_OK K" "S_READY K \<noteq> S_OK K" "i < length ts"
  shows "(status (check_status_step K i ts ! k) = S_OK K) = (status (ts ! k) = S_OK K)"
  using assms by (auto simp: step_status)

lemma step_all_ok:
  assumes "S_SUB K < S_OK K" "S_READY K \<noteq> S_OK K" "i < length ts"
  shows "all_ok K (check_status_step K i ts) (check_status_step K i ts ! k) = all_ok K ts (ts ! k)"
  unfolding all_ok_def links_status_def link_status_def
  by (simp add: step_links [OF assms(3)] step_is_ok [OF assms] list_all_iff)

lemma fold_all_ok:
  assumes "S_SUB K < S_OK K" "S_READY K \<noteq> S_OK K"
  shows "\<forall>i \<in> set js. i < length ts \<Longrightarrow>
    all_ok K (fold (check_status_step K) js ts) (fold (check_status_step K) js ts ! k) = all_ok K ts (ts ! k)"
proof (induction js arbitrary: ts)
  case Nil
  then show ?case by simp
next
  case (Cons j js)
  have j: "j < length ts" using Cons.prems by simp
  have rest: "\<forall>i \<in> set js. i < length (check_status_step K j ts)"
    using Cons.prems by (simp add: length_check_status_step)
  show ?case using Cons.IH [OF rest] step_all_ok [OF assms j] by simp
qed

lemma fold_status:
  assumes "S_SUB K < S_OK K" "S_READY K \<noteq> S_OK K"
  shows "\<forall>i \<in> set js. i < length ts \<Longrightarrow>
         status (fold (check_status_step K) js ts ! k) =
           (if k \<in> set js \<and> status (ts ! k) \<le> S_SUB K \<and> all_ok K ts (ts ! k) then S_READY K
            else status (ts ! k))"
proof (induction js arbitrary: ts)
  case Nil
  then show ?case by simp
next
  case (Cons j js)
  let ?ts = "check_status_step K j ts"
  have j: "j < length ts" using Cons.prems by simp
  have rest: "\<forall>i \<in> set js. i < length ?ts"
    using Cons.prems by (simp add: length_check_status_step)
  have ih: "status (fold (check_status_step K) js ?ts ! k) =
           (if k \<in> set js \<and> status (?ts ! k) \<le> S_SUB K \<and> all_ok K ?ts (?ts ! k) then S_READY K
            else status (?ts ! k))"
    using Cons.IH [OF rest] .
  have ok: "all_ok K ?ts (?ts ! k) = all_ok K ts (ts ! k)" using step_all_ok [OF assms j] .
  have st: "status (?ts ! k) =
     (if k = j \<and> status (ts ! j) \<le> S_SUB K \<and> all_ok K ts (ts ! j) then S_READY K else status (ts ! k))"
    using step_status [OF j] .
  show ?case using ih ok st by auto
qed

lemma propagate_status:
  assumes "S_SUB K < S_OK K" "S_READY K \<noteq> S_OK K"
  shows "status (check_status_propagate K ts ! k) =
           (if k < length ts \<and> status (ts ! k) \<le> S_SUB K \<and> all_ok K ts (ts ! k) then S_READY K
            else status (ts ! k))"
  unfolding check_status_propagate_def
  using fold_status [OF assms, of "[0..<length ts]" ts k] by simp

lemma propagate_all_ok:
  assumes "S_SUB K < S_OK K" "S_READY K \<noteq> S_OK K"
  shows "all_ok K (check_status_propagate K ts) (check_status_propagate K ts ! k) = all_ok K ts (ts ! k)"
  unfolding check_status_propagate_def
  using fold_all_ok [OF assms, of "[0..<length ts]" ts k] by simp

lemma all_ok_links:
  "all_ok K ts t = (\<forall>l \<in> set (links t). link_status ts l = S_OK K)"
  by (simp add: all_ok_def links_status_def list_all_iff)

text \<open>
  Claim C4. After \<open>check_status\<close> (the refresh of every task, then the propagation),
  every task whose status is not past \<open>SUB\<close> and all of whose link statuses equal \<open>OK\<close>
  has status \<open>READY\<close>; and a task whose status the propagation has changed to \<open>READY\<close>
  (it was not \<open>READY\<close> after the refresh) has every task referenced by its links in
  status \<open>OK\<close>. The status codes are taken in their order (\<open>SUB\<close> below \<open>OK\<close>, \<open>READY\<close>
  different from \<open>OK\<close>).
\<close>

theorem check_status_ready:
  assumes "S_SUB K < S_OK K" "S_READY K \<noteq> S_OK K"
  shows "(\<forall>k < length (tasks (check_status K task_check_status w)).
            status (tasks (check_status K task_check_status w) ! k) \<le> S_SUB K
            \<and> (\<forall>l \<in> set (links (tasks (check_status K task_check_status w) ! k)).
                  link_status (tasks (check_status K task_check_status w)) l = S_OK K)
            \<longrightarrow> status (tasks (check_status K task_check_status w) ! k) = S_READY K)
       \<and> (\<forall>k < length (tasks (check_status K task_check_status w)).
            status (tasks (check_status K task_check_status w) ! k) = S_READY K
            \<and> status (check_status_refresh task_check_status (tasks w) ! k) \<noteq> S_READY K
            \<longrightarrow> (\<forall>l \<in> set (links (tasks (check_status K task_check_status w) ! k)).
                  link_status (tasks (check_status K task_check_status w)) l = S_OK K))"
proof -
  let ?ts1 = "check_status_refresh task_check_status (tasks w)"
  let ?ts2 = "check_status_propagate K ?ts1"
  have t2: "tasks (check_status K task_check_status w) = ?ts2"
    by (simp add: check_status_def)
  have st: "\<And>k. status (?ts2 ! k) =
           (if k < length ?ts1 \<and> status (?ts1 ! k) \<le> S_SUB K \<and> all_ok K ?ts1 (?ts1 ! k) then S_READY K
            else status (?ts1 ! k))"
    using propagate_status [OF assms] .
  have ok: "\<And>k. all_ok K ?ts2 (?ts2 ! k) = all_ok K ?ts1 (?ts1 ! k)"
    using propagate_all_ok [OF assms] .
  have p1: "status (?ts2 ! k) = S_READY K"
    if "status (?ts2 ! k) \<le> S_SUB K" "all_ok K ?ts2 (?ts2 ! k)" "k < length ?ts2" for k
  proof -
    have len: "k < length ?ts1" using that(3) by (simp add: check_status_propagate_def length_fold_step)
    show ?thesis using that(1,2) len st [of k] ok [of k] by (auto split: if_splits)
  qed
  have p2: "all_ok K ?ts2 (?ts2 ! k)"
    if "status (?ts2 ! k) = S_READY K" "status (?ts1 ! k) \<noteq> S_READY K" for k
    using that st [of k] ok [of k] by (auto split: if_splits)
  show ?thesis unfolding t2 using p1 p2 by (simp add: all_ok_links [symmetric])
qed

theorem check_status_ready_witness:
  "S_SUB codes_example < S_OK codes_example \<and> S_READY codes_example \<noteq> S_OK codes_example
   \<and> map status (tasks (check_status codes_example id
        (workflow_example [task_example 0 5 1 [], task_example 1 0 1 [0], task_example 2 0 1 [1]])))
      = [5, 1, 0]
   \<and> status (tasks (check_status codes_example id
        (workflow_example [task_example 0 5 1 [], task_example 1 0 1 [0], task_example 2 0 1 [1]])) ! 1)
      \<le> S_SUB codes_example
   \<and> links (tasks (check_status codes_example id
        (workflow_example [task_example 0 5 1 [], task_example 1 0 1 [0], task_example 2 0 1 [1]])) ! 1)
      = [\<lparr> node = 0, products = [] \<rparr>]
   \<and> link_status (tasks (check_status codes_example id
        (workflow_example [task_example 0 5 1 [], task_example 1 0 1 [0], task_example 2 0 1 [1]])))
        \<lparr> node = 0, products = [] \<rparr>
      = S_OK codes_example
   \<and> status (check_status_refresh id (tasks
        (workflow_example [task_example 0 5 1 [], task_example 1 0 1 [0], task_example 2 0 1 [1]])) ! 1)
      \<noteq> S_READY codes_example"
  using check_status_ready [of codes_example id
      "workflow_example [task_example 0 5 1 [], task_example 1 0 1 [0], task_example 2 0 1 [1]]"]
  by (simp add: check_status_def check_status_propagate_def check_status_refresh_def
      check_status_step_def all_ok_def links_status_def link_status_def set_status_def
      codes_example_def workflow_example_def task_example_def Let_def upt_rec)

lemma foldl_min_Min: "foldl min (x::int) xs = Min (set (x # xs))"
proof (induction xs arbitrary: x)
  case Nil
  then show ?case by simp
next
  case (Cons y ys)
  have "foldl min x (y # ys) = foldl min (min x y) ys" by simp
  also have "\<dots> = Min (set (min x y # ys))" using Cons.IH by simp
  also have "\<dots> = Min (set (x # y # ys))"
  proof (cases ys)
    case Nil
    then show ?thesis by (simp add: min.commute)
  next
    case (Cons z zs)
    then show ?thesis by (simp add: min.assoc min.commute min.left_commute)
  qed
  finally show ?case .
qed

lemma py_min_Min: "xs \<noteq> [] \<Longrightarrow> py_min xs = Inr (Min (set xs))"
  by (cases xs) (simp_all add: foldl_min_Min del: foldl_Cons)

text \<open>
  Claim C5. For every workflow with at least one task, the property \<open>status\<close> of the
  workflow is the minimum of the statuses of its tasks; it is computed on demand from
  the tasks as \<open>check_status\<close> leaves them, and the state returned is the state after
  \<open>check_status\<close>.
\<close>

theorem workflow_status_minimum:
  assumes "tasks w \<noteq> []"
  shows "\<exists>m. workflow_status K task_check_status w =
               (check_status K task_check_status w, Inr (MinStatus m))
           \<and> m = Min (set (map status (tasks (check_status K task_check_status w))))
           \<and> (\<exists>t \<in> set (tasks (check_status K task_check_status w)). status t = m)
           \<and> (\<forall>t \<in> set (tasks (check_status K task_check_status w)). m \<le> status t)"
proof -
  let ?w = "check_status K task_check_status w"
  let ?sl = "map status (tasks ?w)"
  have "length (tasks ?w) = length (tasks w)" by (rule length_check_status)
  with assms have ne: "?sl \<noteq> []" by auto
  have fin: "finite (set ?sl)" by simp
  have ne2: "set ?sl \<noteq> {}" using ne by simp
  have mem: "Min (set ?sl) \<in> set ?sl" using Min_in [OF fin ne2] .
  have le: "\<forall>s \<in> set ?sl. Min (set ?sl) \<le> s" using Min_le [OF fin] by blast
  have eq: "workflow_status K task_check_status w = (?w, Inr (MinStatus (Min (set ?sl))))"
    using py_min_Min [OF ne] by (simp add: workflow_status_def get_all_status_def Let_def)
  from mem have ex: "\<exists>t \<in> set (tasks ?w). status t = Min (set ?sl)" by auto
  from le have all: "\<forall>t \<in> set (tasks ?w). Min (set ?sl) \<le> status t" by auto
  from eq ex all show ?thesis by blast
qed

theorem workflow_status_minimum_witness:
  "tasks (workflow_example [task_example 0 5 1 [], task_example 1 0 1 [0], task_example 2 3 1 [1]]) \<noteq> []
   \<and> workflow_status codes_example id
        (workflow_example [task_example 0 5 1 [], task_example 1 0 1 [0], task_example 2 3 1 [1]])
      = (workflow_example [task_example 0 5 1 [], task_example 1 1 1 [0], task_example 2 3 1 [1]],
         Inr (MinStatus 1))"
  using workflow_status_minimum [of
      "workflow_example [task_example 0 5 1 [], task_example 1 0 1 [0], task_example 2 3 1 [1]]"
      codes_example id]
  by (simp add: workflow_status_def get_all_status_def check_status_def check_status_propagate_def
      check_status_refresh_def check_status_step_def all_ok_def links_status_def link_status_def
      set_status_def codes_example_def workflow_example_def task_example_def
      Let_def upt_rec)

section \<open>Properties of the results\<close>

lemma push_exceptions_fresh:
  "distinct (map str es) \<Longrightarrow> set (map str es) \<inter> set (exceptions r) = {} \<Longrightarrow>
   push_exceptions str r es = r\<lparr>exceptions := exceptions r @ map str es\<rparr>"
proof (induction es arbitrary: r)
  case Nil
  then show ?case by (simp add: push_exceptions_def)
next
  case (Cons e es)
  let ?r1 = "r\<lparr>exceptions := exceptions r @ [str e]\<rparr>"
  have fresh: "str e \<notin> set (exceptions r)" using Cons.prems(2) by auto
  have step: "push_exception str r e = ?r1" using fresh by (simp add: push_exception_def)
  have d: "distinct (map str es)" using Cons.prems(1) by simp
  have i: "set (map str es) \<inter> set (exceptions ?r1) = {}"
    using Cons.prems by auto
  have "push_exceptions str ?r1 es = ?r1\<lparr>exceptions := exceptions ?r1 @ map str es\<rparr>"
    using Cons.IH [OF d i] .
  then show ?case using step by (simp add: push_exceptions_def)
qed

lemma push_exception_mem: "str e \<in> set (exceptions (push_exception str r e))"
  by (simp add: push_exception_def Let_def)

text \<open>
  Claim C9. If \<open>str(e)\<close> is already in the list of exceptions, \<open>push_exceptions(e)\<close>
  leaves the results unchanged; so pushing an object whose string is that of the
  object pushed just before changes nothing (the test is on the strings, not on the
  objects); and objects with different strings, none of them in the list, are appended
  in their order.
\<close>

theorem push_exceptions_dedup:
  "(str e \<in> set (exceptions r) \<longrightarrow> push_exceptions str r [e] = r)
   \<and> (str e' = str e \<longrightarrow>
        push_exceptions str (push_exceptions str r [e]) [e'] = push_exceptions str r [e])
   \<and> (distinct (map str es) \<and> set (map str es) \<inter> set (exceptions r) = {} \<longrightarrow>
        push_exceptions str r es = r\<lparr>exceptions := exceptions r @ map str es\<rparr>)"
proof -
  have 1: "str e \<in> set (exceptions r) \<longrightarrow> push_exceptions str r [e] = r"
    by (simp add: push_exceptions_def push_exception_def)
  have 2: "str e' = str e \<longrightarrow>
        push_exceptions str (push_exceptions str r [e]) [e'] = push_exceptions str r [e]"
  proof
    assume eq: "str e' = str e"
    have "str e' \<in> set (exceptions (push_exception str r e))"
      using push_exception_mem [of str e r] eq by simp
    then show "push_exceptions str (push_exceptions str r [e]) [e'] = push_exceptions str r [e]"
      by (simp add: push_exceptions_def push_exception_def [of str "push_exception str r e" e'])
  qed
  have 3: "distinct (map str es) \<and> set (map str es) \<inter> set (exceptions r) = {} \<longrightarrow>
        push_exceptions str r es = r\<lparr>exceptions := exceptions r @ map str es\<rparr>"
    using push_exceptions_fresh [of str es r] by blast
  from 1 2 3 show ?thesis by blast
qed

theorem push_exceptions_dedup_witness:
  "push_exceptions id \<lparr> entries = (\<lambda>k. None :: unit option), exceptions = [''E(ecut) is not decreasing''] \<rparr>
      [''E(ecut) is not decreasing'']
     = \<lparr> entries = (\<lambda>k. None), exceptions = [''E(ecut) is not decreasing''] \<rparr>
   \<and> push_exceptions id
        (push_exceptions id \<lparr> entries = (\<lambda>k. None :: unit option), exceptions = [] \<rparr> [''fit failed''])
        [''fit failed'']
     = \<lparr> entries = (\<lambda>k. None), exceptions = [''fit failed''] \<rparr>
   \<and> push_exceptions id \<lparr> entries = (\<lambda>k. None :: unit option), exceptions = [''a''] \<rparr> [''b'', ''c'']
     = \<lparr> entries = (\<lambda>k. None), exceptions = [''a'', ''b'', ''c''] \<rparr>"
  using push_exceptions_dedup [of id "''E(ecut) is not decreasing''"
          "\<lparr> entries = (\<lambda>k. None :: unit option), exceptions = [''E(ecut) is not decreasing''] \<rparr>"
          "''x''" "[]"]
        push_exceptions_dedup [of id "''fit failed''"
          "\<lparr> entries = (\<lambda>k. None :: unit option), exceptions = [] \<rparr>" "''fit failed''" "[]"]
        push_exceptions_dedup [of id "''a''"
          "\<lparr> entries = (\<lambda>k. None :: unit option), exceptions = [''a''] \<rparr>" "''a''" "[''b'', ''c'']"]
  by (simp add: push_exceptions_def push_exception_def)

section \<open>Properties of the scheduler\<close>

lemma first_can_run_None:
  "(first_can_run cr ts i n = None) = (\<forall>j. i \<le> j \<and> j < i + n \<longrightarrow> \<not> cr ts j)"
proof (induction n arbitrary: i)
  case 0
  show ?case by auto
next
  case (Suc n)
  show ?case
  proof (cases "cr ts i")
    case True
    then show ?thesis by auto
  next
    case False
    have "(\<forall>j. i \<le> j \<and> j < i + Suc n \<longrightarrow> \<not> cr ts j) = (\<forall>j. Suc i \<le> j \<and> j < Suc i + n \<longrightarrow> \<not> cr ts j)"
    proof
      assume a: "\<forall>j. i \<le> j \<and> j < i + Suc n \<longrightarrow> \<not> cr ts j"
      show "\<forall>j. Suc i \<le> j \<and> j < Suc i + n \<longrightarrow> \<not> cr ts j"
      proof (intro allI impI)
        fix j assume "Suc i \<le> j \<and> j < Suc i + n"
        then have "i \<le> j \<and> j < i + Suc n" by simp
        with a show "\<not> cr ts j" by blast
      qed
    next
      assume a: "\<forall>j. Suc i \<le> j \<and> j < Suc i + n \<longrightarrow> \<not> cr ts j"
      show "\<forall>j. i \<le> j \<and> j < i + Suc n \<longrightarrow> \<not> cr ts j"
      proof (intro allI impI)
        fix j assume b: "i \<le> j \<and> j < i + Suc n"
        show "\<not> cr ts j"
        proof (cases "j = i")
          case True
          with False show ?thesis by simp
        next
          case F: False
          with b have "Suc i \<le> j \<and> j < Suc i + n" by simp
          with a show ?thesis by blast
        qed
      qed
    qed
    with False Suc.IH [of "Suc i"] show ?thesis by simp
  qed
qed

lemma first_can_run_Some:
  "(first_can_run cr ts i n = Some k) =
     (i \<le> k \<and> k < i + n \<and> cr ts k \<and> (\<forall>j. i \<le> j \<and> j < k \<longrightarrow> \<not> cr ts j))"
proof (induction n arbitrary: i)
  case 0
  show ?case by auto
next
  case (Suc n)
  show ?case
  proof (cases "cr ts i")
    case True
    have "(i = k) = (i \<le> k \<and> k < i + Suc n \<and> cr ts k \<and> (\<forall>j. i \<le> j \<and> j < k \<longrightarrow> \<not> cr ts j))"
    proof
      assume "i = k"
      with True show "i \<le> k \<and> k < i + Suc n \<and> cr ts k \<and> (\<forall>j. i \<le> j \<and> j < k \<longrightarrow> \<not> cr ts j)"
        by auto
    next
      assume a: "i \<le> k \<and> k < i + Suc n \<and> cr ts k \<and> (\<forall>j. i \<le> j \<and> j < k \<longrightarrow> \<not> cr ts j)"
      show "i = k"
      proof (rule ccontr)
        assume "i \<noteq> k"
        with a have "i \<le> i \<and> i < k" by simp
        with a have "\<not> cr ts i" by blast
        with True show False by simp
      qed
    qed
    with True show ?thesis by simp
  next
    case False
    have "(Suc i \<le> k \<and> k < Suc i + n \<and> cr ts k \<and> (\<forall>j. Suc i \<le> j \<and> j < k \<longrightarrow> \<not> cr ts j))
        = (i \<le> k \<and> k < i + Suc n \<and> cr ts k \<and> (\<forall>j. i \<le> j \<and> j < k \<longrightarrow> \<not> cr ts j))"
    proof
      assume a: "Suc i \<le> k \<and> k < Suc i + n \<and> cr ts k \<and> (\<forall>j. Suc i \<le> j \<and> j < k \<longrightarrow> \<not> cr ts j)"
      have "\<not> cr ts j" if "i \<le> j \<and> j < k" for j
      proof (cases "j = i")
        case True
        with False show ?thesis by simp
      next
        case F: False
        with that have "Suc i \<le> j \<and> j < k" by simp
        with a show ?thesis by blast
      qed
      with a show "i \<le> k \<and> k < i + Suc n \<and> cr ts k \<and> (\<forall>j. i \<le> j \<and> j < k \<longrightarrow> \<not> cr ts j)"
        by simp
    next
      assume a: "i \<le> k \<and> k < i + Suc n \<and> cr ts k \<and> (\<forall>j. i \<le> j \<and> j < k \<longrightarrow> \<not> cr ts j)"
      have "i \<noteq> k" using a False by auto
      with a have 1: "Suc i \<le> k \<and> k < Suc i + n \<and> cr ts k" by simp
      have "\<not> cr ts j" if "Suc i \<le> j \<and> j < k" for j
      proof -
        from that have "i \<le> j \<and> j < k" by simp
        with a show ?thesis by blast
      qed
      with 1 show "Suc i \<le> k \<and> k < Suc i + n \<and> cr ts k \<and> (\<forall>j. Suc i \<le> j \<and> j < k \<longrightarrow> \<not> cr ts j)"
        by simp
    qed
    with False Suc.IH [of "Suc i"] show ?thesis by simp
  qed
qed

text \<open>
  Claim C3. \<open>fetch_task_to_run\<close> first refreshes the statuses with \<open>check_status\<close>.
  Then: it returns a task exactly when that task is the first, in the order of the
  ids, whose \<open>can_run\<close> holds; it raises \<open>StopIteration\<close> exactly when no task can run
  and every task is completed; it returns \<open>None\<close> exactly when no task can run and some
  task is not completed, and then, and only then, the deadlock warning is logged; it
  raises nothing else.
\<close>

theorem fetch_task_to_run_outcome:
  "let ts = tasks (check_status K task_check_status w);
       st = fetch_task_to_run K task_check_status can_run is_completed (w, logged);
       r = snd st
   in fst (fst st) = check_status K task_check_status w
    \<and> (\<forall>i. (r = Inr (Some i)) = (i < length ts \<and> can_run ts i \<and> (\<forall>j<i. \<not> can_run ts j)))
    \<and> ((r = Inl StopIteration) =
          ((\<forall>j<length ts. \<not> can_run ts j) \<and> (\<forall>j<length ts. is_completed ts j)))
    \<and> ((r = Inr None) =
          ((\<forall>j<length ts. \<not> can_run ts j) \<and> (\<exists>j<length ts. \<not> is_completed ts j)))
    \<and> (\<forall>e. r = Inl e \<longrightarrow> e = StopIteration)
    \<and> snd (fst st) =
         (if r = Inr None then logged @ [''Possible deadlock in fetch_task_to_run!''] else logged)"
proof -
  let ?ts = "tasks (check_status K task_check_status w)"
  let ?f = "first_can_run can_run ?ts 0 (length ?ts)"
  have none: "(?f = None) = (\<forall>j<length ?ts. \<not> can_run ?ts j)"
    using first_can_run_None [of can_run ?ts 0 "length ?ts"] by simp
  have some: "\<And>k. (?f = Some k) = (k < length ?ts \<and> can_run ?ts k \<and> (\<forall>j<k. \<not> can_run ?ts j))"
    using first_can_run_Some [of can_run ?ts 0 "length ?ts"] by simp
  have comp: "list_all (is_completed ?ts) [0..<length ?ts] = (\<forall>j<length ?ts. is_completed ?ts j)"
    by (auto simp: list_all_iff)
  show ?thesis
  proof (cases ?f)
    case None
    with none have nr: "\<forall>j<length ?ts. \<not> can_run ?ts j" by simp
    show ?thesis
    proof (cases "\<forall>j<length ?ts. is_completed ?ts j")
      case True
      have r: "fetch_task_to_run K task_check_status can_run is_completed (w, logged)
                 = ((check_status K task_check_status w, logged), Inl StopIteration)"
        using None True comp by (simp add: fetch_task_to_run_def Let_def)
      show ?thesis unfolding Let_def r using nr True by auto
    next
      case False
      have r: "fetch_task_to_run K task_check_status can_run is_completed (w, logged)
                 = ((check_status K task_check_status w,
                     logged @ [''Possible deadlock in fetch_task_to_run!'']), Inr None)"
        using None False comp by (simp add: fetch_task_to_run_def Let_def)
      show ?thesis unfolding Let_def r using nr False by auto
    qed
  next
    case (Some k)
    with some [of k] have k: "k < length ?ts \<and> can_run ?ts k \<and> (\<forall>j<k. \<not> can_run ?ts j)" by simp
    have uniq: "(k = i) = (i < length ?ts \<and> can_run ?ts i \<and> (\<forall>j<i. \<not> can_run ?ts j))" for i
      using some [of i] Some by auto
    have ex: "\<not> (\<forall>j<length ?ts. \<not> can_run ?ts j)" using k by blast
    have r: "fetch_task_to_run K task_check_status can_run is_completed (w, logged)
               = ((check_status K task_check_status w, logged), Inr (Some k))"
      using Some by (simp add: fetch_task_to_run_def Let_def)
    show ?thesis unfolding Let_def r using uniq ex by simp
  qed
qed

theorem fetch_task_to_run_outcome_witness:
  "fetch_task_to_run codes_example id (can_run_example codes_example)
      (is_completed_example codes_example)
      (workflow_example [task_example 0 5 1 [], task_example 1 0 1 [0]], [])
     = ((workflow_example [task_example 0 5 1 [], task_example 1 1 1 [0]], []), Inr (Some 1))
   \<and> fetch_task_to_run codes_example id (can_run_example codes_example)
      (is_completed_example codes_example)
      (workflow_example [task_example 0 5 1 [], task_example 1 5 1 [0]], [])
     = ((workflow_example [task_example 0 5 1 [], task_example 1 5 1 [0]], []), Inl StopIteration)
   \<and> fetch_task_to_run codes_example id (can_run_example codes_example)
      (is_completed_example codes_example)
      (workflow_example [task_example 0 3 1 [], task_example 1 0 1 [0]], [])
     = ((workflow_example [task_example 0 3 1 [], task_example 1 0 1 [0]],
         [''Possible deadlock in fetch_task_to_run!'']), Inr None)"
  using fetch_task_to_run_outcome [of codes_example id
          "workflow_example [task_example 0 5 1 [], task_example 1 0 1 [0]]"
          "can_run_example codes_example" "is_completed_example codes_example" "[]"]
        fetch_task_to_run_outcome [of codes_example id
          "workflow_example [task_example 0 5 1 [], task_example 1 5 1 [0]]"
          "can_run_example codes_example" "is_completed_example codes_example" "[]"]
        fetch_task_to_run_outcome [of codes_example id
          "workflow_example [task_example 0 3 1 [], task_example 1 0 1 [0]]"
          "can_run_example codes_example" "is_completed_example codes_example" "[]"]
  by (simp add: fetch_task_to_run_def can_run_example_def is_completed_example_def
      check_status_def check_status_propagate_def check_status_refresh_def
      check_status_step_def all_ok_def links_status_def link_status_def set_status_def
      codes_example_def workflow_example_def task_example_def Let_def upt_rec)

section \<open>Properties of the registration\<close>

text \<open>
  The copy of the manager, the constructor and the assignment of the class come before
  the task is appended: a failure of one of them leaves the workflow as it was.
\<close>

lemma register_cases:
  fixes w :: "('m, 'z) workflow_scheme"
  shows "(\<exists>e. register deepcopy tf fi obj lnks mgr tclass w = (w, Inl e))
       \<or> (\<exists>w' l. register deepcopy tf fi obj lnks mgr tclass w = (w', Inr l)
            \<and> (\<exists>ts ld. w' = w\<lparr>tasks := ts, links_dict := ld\<rparr>
                  \<and> length ts = Suc (length (tasks w))))"
proof (cases "deepcopy (case mgr of None \<Rightarrow> manager w | Some m \<Rightarrow> m)")
  case (Inl e)
  then have "register deepcopy tf fi obj lnks mgr tclass w = (w, Inl e)"
    unfolding register_def Let_def by simp
  then show ?thesis by blast
next
  case mg: (Inr mg)
  let ?twd = "os_path_join (workdir w) (''task_'' @ str_nat (length (tasks w)))"
  let ?made = "if is_Strategy obj then tf obj ?twd mg (length (tasks w)) (links_of lnks)
               else fi obj ?twd mg (length (tasks w)) (links_of lnks)"
  show ?thesis
  proof (cases ?made)
    case (Inl e)
    then have "register deepcopy tf fi obj lnks mgr tclass w = (w, Inl e)"
      using mg unfolding register_def Let_def by simp
    then show ?thesis by blast
  next
    case t: (Inr t)
    show ?thesis
    proof (cases "assign_class t tclass")
      case (Inl e)
      then have "register deepcopy tf fi obj lnks mgr tclass w = (w, Inl e)"
        using mg t unfolding register_def Let_def by simp
      then show ?thesis by blast
    next
      case (Inr t')
      let ?ld = "if links_of lnks \<noteq> []
         then (links_dict w)(length (tasks w) := links_dict w (length (tasks w)) @ links_of lnks)
         else links_dict w"
      have "register deepcopy tf fi obj lnks mgr tclass w =
              (w\<lparr>tasks := tasks w @ [t'], links_dict := ?ld\<rparr>,
               Inr \<lparr> node = length (tasks w), products = [] \<rparr>)"
        using mg t Inr unfolding register_def Let_def by simp
      moreover have "length (tasks w @ [t']) = Suc (length (tasks w))" by simp
      ultimately show ?thesis by blast
    qed
  qed
qed

lemma register_failure_unchanged:
  fixes w :: "('m, 'z) workflow_scheme"
  assumes "snd (register deepcopy tf fi obj lnks mgr tclass w) = Inl e"
  shows "fst (register deepcopy tf fi obj lnks mgr tclass w) = w"
  using register_cases [of deepcopy tf fi obj lnks mgr tclass w] assms by auto

text \<open>The constructor run in the directory \<^verbatim>\<open>/\<close> gives the workflow of the examples.\<close>

lemma Workflow_example:
  "Workflow (\<lambda>p. os_path_join ''/'' p) Inr ''work'' () = Inr (workflow_example [])"
  by (simp add: Workflow_def workflow_example_def os_path_join_def Let_def)

text \<open>
  Claim C6. \<open>register\<close> fails with the designated job-specification error whenever the
  object is neither a strategy nor an input object, and then no task is added to the
  workflow. \<open>register\<close> itself only tells a \<open>Strategy\<close> from the rest and hands every
  other object to \<open>AbinitTask.from_input\<close>, which decides; with that constructor as the
  spec describes it, and when the copy of the manager succeeds, an object that is
  neither is refused with the designated error and the workflow is unchanged. When
  the copy of the manager raises, \<open>register\<close> raises the same and the workflow is
  unchanged as well. An input object is registered as the generic task.
\<close>

theorem register_rejects_other_object:
  fixes w :: "('m, 'z) workflow_scheme"
  shows "(deepcopy (case mgr of None \<Rightarrow> manager w | Some m \<Rightarrow> m) = Inr mg \<longrightarrow>
      register deepcopy task_factory (from_input_spec generic_task) (OtherObject x)
        lnks mgr tclass w = (w, Inl InvalidJobSpecError))
   \<and> (deepcopy (case mgr of None \<Rightarrow> manager w | Some m \<Rightarrow> m) = Inl e \<longrightarrow>
      register deepcopy task_factory (from_input_spec generic_task) (OtherObject x)
        lnks mgr tclass w = (w, Inl e))
   \<and> (deepcopy (case mgr of None \<Rightarrow> manager w | Some m \<Rightarrow> m) = Inr mg \<longrightarrow>
      tasks (fst (register deepcopy task_factory (from_input_spec generic_task) (AbinitInput i)
        lnks mgr None w))
      = tasks w @ [generic_task (AbinitInput i)
                     (os_path_join (workdir w) (''task_'' @ str_nat (length (tasks w))))
                     mg (length (tasks w)) (links_of lnks)])"
proof (intro conjI impI)
  assume "deepcopy (case mgr of None \<Rightarrow> manager w | Some m \<Rightarrow> m) = Inr mg"
  then show "register deepcopy task_factory (from_input_spec generic_task) (OtherObject x)
        lnks mgr tclass w = (w, Inl InvalidJobSpecError)"
    by (simp add: register_def from_input_spec_def Let_def)
next
  assume "deepcopy (case mgr of None \<Rightarrow> manager w | Some m \<Rightarrow> m) = Inl e"
  then show "register deepcopy task_factory (from_input_spec generic_task) (OtherObject x)
        lnks mgr tclass w = (w, Inl e)"
    by (simp add: register_def Let_def)
next
  assume "deepcopy (case mgr of None \<Rightarrow> manager w | Some m \<Rightarrow> m) = Inr mg"
  then show "tasks (fst (register deepcopy task_factory (from_input_spec generic_task)
        (AbinitInput i) lnks mgr None w))
      = tasks w @ [generic_task (AbinitInput i)
                     (os_path_join (workdir w) (''task_'' @ str_nat (length (tasks w))))
                     mg (length (tasks w)) (links_of lnks)]"
    by (simp add: register_def from_input_spec_def Let_def)
qed

theorem register_rejects_other_object_witness:
  "register Inr reject_all (from_input_spec generic_example) (OtherObject ()) (LinkList []) None None
      (workflow_example [])
     = (workflow_example [], Inl InvalidJobSpecError)
   \<and> register (\<lambda>m. Inl (ExternalError ''no copy'')) reject_all (from_input_spec generic_example)
        (OtherObject ()) (LinkList []) None None (workflow_example [])
     = (workflow_example [], Inl (ExternalError ''no copy''))
   \<and> tasks (fst (register Inr reject_all (from_input_spec generic_example) (AbinitInput ())
        (LinkList []) None None (workflow_example [])))
     = [\<lparr> task_id = 0, status = 0, tot_ncpus = 1, links = [],
          task_workdir = ''/work/task_0'', task_class = ''AbinitTask'' \<rparr>]"
  using register_rejects_other_object [where deepcopy = Inr and mgr = None
          and w = "workflow_example []" and mg = "()" and task_factory = reject_all
          and generic_task = generic_example and x = "()" and lnks = "LinkList []"
          and tclass = None and i = "()" and e = "ExternalError ''no copy''"]
        register_rejects_other_object [where deepcopy = "\<lambda>m. Inl (ExternalError ''no copy'')"
          and mgr = None and w = "workflow_example []" and mg = "()"
          and task_factory = reject_all and generic_task = generic_example and x = "()"
          and lnks = "LinkList []" and tclass = None and i = "()"
          and e = "ExternalError ''no copy''"]
  by (simp add: register_def from_input_spec_def generic_example_def workflow_example_def
      os_path_join_def str_nat.simps digit_char_def Let_def)

text \<open>An object that is not a class of tasks as \<open>task_class\<close>: the task is built, not added.\<close>

lemma register_class_example:
  "register Inr reject_all (from_input_spec generic_example) (AbinitInput ()) (LinkList [])
      None (Some (NotATaskClass ''int'')) (workflow_example [])
     = (workflow_example [], Inl TypeError)"
  by (simp add: register_def from_input_spec_def generic_example_def workflow_example_def
      Let_def)

section \<open>Properties of the iterative workflow\<close>

lemma gen_next_cases:
  "(gen_next g = (g, Inl StopIteration))
   \<or> (\<exists>x. gen_next g = (g\<lparr>pos := Suc (pos g)\<rparr>, Inr x))"
  by (cases "items g (pos g)") (simp_all add: gen_next_def)

lemma next_task_cases:
  fixes w :: "('m, 'o) iterative_work"
  shows "\<exists>w' r. next_task deepcopy tf fi w = (w', r)
     \<and> max_niter w' = max_niter w \<and> niter w' = niter w
     \<and> length (tasks w) \<le> length (tasks w') \<and> length (tasks w') \<le> Suc (length (tasks w))
     \<and> pos (strategy_generator w) \<le> pos (strategy_generator w')
     \<and> pos (strategy_generator w') \<le> Suc (pos (strategy_generator w))
     \<and> (\<forall>i. r = Inr i \<longrightarrow> niter w' = Some (int (length (tasks w')))
            \<and> length (tasks w') = Suc (length (tasks w)) \<and> i = length (tasks w))"
proof -
  let ?g = "strategy_generator w"
  from gen_next_cases [of ?g] show ?thesis
  proof
    assume "gen_next ?g = (?g, Inl StopIteration)"
    then show ?thesis by (simp add: next_task_def)
  next
    assume "\<exists>x. gen_next ?g = (?g\<lparr>pos := Suc (pos ?g)\<rparr>, Inr x)"
    then obtain x where x: "gen_next ?g = (?g\<lparr>pos := Suc (pos ?g)\<rparr>, Inr x)" by blast
    let ?w0 = "w\<lparr>strategy_generator := ?g\<lparr>pos := Suc (pos ?g)\<rparr>\<rparr>"
    from register_cases [of deepcopy tf fi x "LinkList []" None None ?w0] show ?thesis
    proof
      assume "\<exists>e. register deepcopy tf fi x (LinkList []) None None ?w0 = (?w0, Inl e)"
      then obtain e where "register deepcopy tf fi x (LinkList []) None None ?w0 = (?w0, Inl e)" by blast
      with x show ?thesis by (simp add: next_task_def)
    next
      assume "\<exists>w' l. register deepcopy tf fi x (LinkList []) None None ?w0 = (w', Inr l)
            \<and> (\<exists>ts ld. w' = ?w0\<lparr>tasks := ts, links_dict := ld\<rparr>
                  \<and> length ts = Suc (length (tasks ?w0)))"
      then obtain w1 l ts ld where r: "register deepcopy tf fi x (LinkList []) None None ?w0 = (w1, Inr l)"
        and w1: "w1 = ?w0\<lparr>tasks := ts, links_dict := ld\<rparr>"
        and lts: "length ts = Suc (length (tasks ?w0))" by blast
      have n: "niter w1 = niter w" and m: "max_niter w1 = max_niter w"
        and g: "strategy_generator w1 = ?g\<lparr>pos := Suc (pos ?g)\<rparr>"
        and len: "length (tasks w1) = Suc (length (tasks w))"
        using w1 lts by simp_all
      have last_ix: "py_index [0..<length (tasks w1)] (- 1) = Inr (length (tasks w))"
      proof -
        have "nat (int (Suc (length (tasks w))) + - 1) = length (tasks w)" by simp
        moreover have "[0..<Suc (length (tasks w))] ! length (tasks w) = length (tasks w)"
          using nth_upt [of 0 "length (tasks w)" "Suc (length (tasks w))"] by simp
        ultimately show ?thesis using len by (simp add: py_index_def del: upt_Suc)
      qed
      show ?thesis
      proof (cases "niter w")
        case None
        with x r n m g len show ?thesis by (simp add: next_task_def)
      next
        case (Some k)
        with x r n m g len last_ix show ?thesis by (simp add: next_task_def)
      qed
    qed
  qed
qed


lemma submit_loop_bounded:
  fixes w :: "('m, 'o) iterative_work"
  assumes "0 < max_niter w" "niter w = Some n" "nat (max_niter w + 1 - n) < fuel"
  shows "\<exists>w' r. submit_loop fuel deepcopy tf fi run ex w = Some (w', r)
      \<and> length (tasks w') \<le> length (tasks w) + nat (max_niter w + 1 - n)
      \<and> pos (strategy_generator w') \<le> pos (strategy_generator w) + nat (max_niter w + 1 - n)"
  using assms
proof (induction fuel arbitrary: w n)
  case 0
  then show ?case by simp
next
  case (Suc fuel)
  show ?case
  proof (cases "n > max_niter w")
    case True
    with Suc.prems show ?thesis by simp
  next
    case False
    then have budget: "nat (max_niter w + 1 - n) = Suc (nat (max_niter w - n))" by linarith
    from next_task_cases [of deepcopy tf fi w] obtain w1 r1 where
      nt: "next_task deepcopy tf fi w = (w1, r1)"
      and m1: "max_niter w1 = max_niter w" and n1: "niter w1 = niter w"
      and l1: "length (tasks w1) \<le> Suc (length (tasks w))"
      and p1: "pos (strategy_generator w1) \<le> Suc (pos (strategy_generator w))"
      by blast
    show ?thesis
    proof (cases r1)
      case (Inl e)
      with nt Suc.prems(2) False l1 p1 budget show ?thesis by simp
    next
      case (Inr i)
      let ?w2 = "w1\<lparr>tasks := (tasks w1)[i := run (tasks w1 ! i)]\<rparr>"
      show ?thesis
      proof (cases "ex ?w2")
        case True
        with nt Inr Suc.prems(2) False l1 p1 budget show ?thesis by (simp add: Let_def)
      next
        case F2: False
        let ?w3 = "?w2\<lparr>niter := Some (n + 1)\<rparr>"
        have a1: "0 < max_niter ?w3" using Suc.prems(1) m1 by simp
        have a2: "niter ?w3 = Some (n + 1)" by simp
        have a3: "nat (max_niter ?w3 + 1 - (n + 1)) < fuel"
          using Suc.prems(3) budget m1 by simp
        from Suc.IH [OF a1 a2 a3] obtain w' r where
          res: "submit_loop fuel deepcopy tf fi run ex ?w3 = Some (w', r)"
          and l3: "length (tasks w') \<le> length (tasks ?w3) + nat (max_niter ?w3 + 1 - (n + 1))"
          and p3: "pos (strategy_generator w') \<le>
                     pos (strategy_generator ?w3) + nat (max_niter ?w3 + 1 - (n + 1))"
          by blast
        have step: "submit_loop (Suc fuel) deepcopy tf fi run ex w = submit_loop fuel deepcopy tf fi run ex ?w3"
          using nt Inr Suc.prems(2) False F2 n1 by (simp add: Let_def)
        have l: "length (tasks w') \<le> length (tasks w) + nat (max_niter w + 1 - n)"
          using l3 l1 m1 budget by simp
        have p: "pos (strategy_generator w') \<le> pos (strategy_generator w) + nat (max_niter w + 1 - n)"
          using p3 p1 m1 budget by simp
        show ?thesis using step res l p by simp
      qed
    qed
  qed
qed

text \<open>
  Claim C7. When \<open>max_niter\<close> is positive, \<open>submit_tasks\<close> ends (any fuel above
  \<open>max_niter\<close> is enough), and by then at most \<open>max_niter\<close> objects have been taken from the
  generator and at most \<open>max_niter\<close> tasks have been registered: the loop stops as soon
  as \<open>niter\<close> exceeds \<open>max_niter\<close>. And whenever \<open>next_task\<close> returns a task, the number
  of tasks of the workflow equals \<open>niter\<close>, exactly one task has been added, and the
  task returned is the new one.
\<close>

theorem submit_tasks_bounded:
  fixes w w0 :: "('m, 'o) iterative_work"
  assumes "0 < max_niter w" "nat (max_niter w) < fuel"
  shows "(\<exists>w' r. submit_tasks fuel deepcopy tf fi run ex w = Some (w', r)
            \<and> length (tasks w') \<le> length (tasks w) + nat (max_niter w)
            \<and> pos (strategy_generator w') \<le> pos (strategy_generator w) + nat (max_niter w))
       \<and> (\<forall>w1 i. next_task deepcopy tf fi w0 = (w1, Inr i) \<longrightarrow>
            niter w1 = Some (int (length (tasks w1)))
            \<and> length (tasks w1) = Suc (length (tasks w0)) \<and> i = length (tasks w0))"
proof -
  let ?w = "w\<lparr>niter := Some 1\<rparr>"
  have a1: "0 < max_niter ?w" using assms(1) by simp
  have a2: "niter ?w = Some 1" by simp
  have a3: "nat (max_niter ?w + 1 - 1) < fuel" using assms(2) by simp
  from submit_loop_bounded [OF a1 a2 a3, of deepcopy tf fi run ex]
  have 1: "\<exists>w' r. submit_tasks fuel deepcopy tf fi run ex w = Some (w', r)
            \<and> length (tasks w') \<le> length (tasks w) + nat (max_niter w)
            \<and> pos (strategy_generator w') \<le> pos (strategy_generator w) + nat (max_niter w)"
    by (simp add: submit_tasks_def)
  have 2: "\<forall>w1 i. next_task deepcopy tf fi w0 = (w1, Inr i) \<longrightarrow>
            niter w1 = Some (int (length (tasks w1)))
            \<and> length (tasks w1) = Suc (length (tasks w0)) \<and> i = length (tasks w0)"
    using next_task_cases [of deepcopy tf fi w0] by auto
  from 1 2 show ?thesis by blast
qed

theorem submit_tasks_bounded_witness:
  "0 < max_niter (iterative_example 2) \<and> nat (max_niter (iterative_example 2)) < 3
   \<and> submit_tasks 3 Inr accept_any reject_all id (\<lambda>w. False) (iterative_example 2)
     = Some ((iterative_example 2)
              \<lparr> tasks :=
                  [\<lparr> task_id = 0, status = 0, tot_ncpus = 1, links = [],
                     task_workdir = ''/work/task_0'', task_class = ''AbinitTask'' \<rparr>,
                   \<lparr> task_id = 1, status = 0, tot_ncpus = 1, links = [],
                     task_workdir = ''/work/task_1'', task_class = ''AbinitTask'' \<rparr>],
                strategy_generator := \<lparr> items = (\<lambda>k. Some (Strategy ())), pos = 2 \<rparr>,
                niter := Some 3 \<rparr>, Inr ())
   \<and> next_task Inr accept_any reject_all ((iterative_example 2)\<lparr>niter := Some 1\<rparr>)
     = ((iterative_example 2)
              \<lparr> tasks :=
                  [\<lparr> task_id = 0, status = 0, tot_ncpus = 1, links = [],
                     task_workdir = ''/work/task_0'', task_class = ''AbinitTask'' \<rparr>],
                strategy_generator := \<lparr> items = (\<lambda>k. Some (Strategy ())), pos = 1 \<rparr>,
                niter := Some 1 \<rparr>, Inr 0)"
  using submit_tasks_bounded [of "iterative_example 2" 3 Inr accept_any reject_all id "\<lambda>w. False"
          "(iterative_example 2)\<lparr>niter := Some 1\<rparr>"]
  by (simp add: submit_tasks_def next_task_def gen_next_def register_def accept_any_def
      iterative_example_def os_path_join_def str_nat.simps digit_char_def py_index_def
      numeral_3_eq_3 Let_def upt_rec)

section \<open>Properties of the hints\<close>

text \<open>
  The index at which the scan stops does not grow when the tolerance grows, and it is
  below the last two positions when the last deviation is within the tolerance.
\<close>

lemma conv_scan_range:
  "0 < k \<Longrightarrow> 0 \<le> conv_scan vd tol k i \<and> conv_scan vd tol k i < int k"
proof (induction k arbitrary: i)
  case 0
  then show ?case by simp
next
  case (Suc k)
  show ?case
  proof (cases "k = 0")
    case True
    then show ?thesis by simp
  next
    case False
    then have "0 \<le> conv_scan vd tol k (int k) \<and> conv_scan vd tol k (int k) < int k"
      using Suc.IH [of "int k"] by simp
    then show ?thesis by simp
  qed
qed

lemma conv_scan_mono:
  "tol1 \<le> tol2 \<Longrightarrow> conv_scan vd tol2 k i \<le> conv_scan vd tol1 k i"
proof (induction k arbitrary: i)
  case 0
  then show ?case by simp
next
  case (Suc k)
  show ?case
  proof (cases "dev_gt (vd ! k) tol2")
    case True
    with Suc.prems have "dev_gt (vd ! k) tol1" by (cases "vd ! k") simp_all
    with True show ?thesis by simp
  next
    case False
    show ?thesis
    proof (cases "dev_gt (vd ! k) tol1")
      case True
      have "conv_scan vd tol2 k (int k) \<le> int k"
      proof (cases "k = 0")
        case True
        then show ?thesis by simp
      next
        case F: False
        then show ?thesis using conv_scan_range [of k vd tol2 "int k"] by simp
      qed
      with True False show ?thesis by simp
    next
      case F2: False
      with False Suc.IH [OF Suc.prems, of "int k"] show ?thesis by simp
    qed
  qed
qed

lemma conv_scan_below_last:
  assumes "2 \<le> k" "\<not> dev_gt (vd ! (k - 1)) tol"
  shows "conv_scan vd tol k i \<le> int k - 2"
proof -
  from assms(1) obtain k' where k: "k = Suc k'" and k': "0 < k'" by (cases k) auto
  have "conv_scan vd tol k i = conv_scan vd tol k' (int k')"
    using assms(2) k by simp
  moreover have "conv_scan vd tol k' (int k') < int k'"
    using conv_scan_range [OF k'] by blast
  ultimately show ?thesis using k by simp
qed

lemma py_index_minus2_short:
  "length xs < 2 \<Longrightarrow> py_index xs (- 2) = Inl IndexError"
  by (simp add: py_index_def)

lemma conv_index_converged:
  assumes "conv_index vd tol m = Inr r" "r \<noteq> - 1"
  shows "m < int (length vd) \<and> 2 \<le> length vd \<and> dev_lt (vd ! (length vd - 2)) tol
       \<and> r = conv_scan vd tol (length vd) (- 2) + 1
       \<and> m \<le> int (length vd) - conv_scan vd tol (length vd) (- 2) - 1"
proof -
  have pts: "m < int (length vd)"
    using assms by (auto simp: conv_index_def Let_def split: if_splits)
  have len: "2 \<le> length vd"
  proof (rule ccontr)
    assume "\<not> 2 \<le> length vd"
    then have "py_index vd (- 2) = Inl IndexError" by (simp add: py_index_minus2_short)
    with pts assms(1) show False by (simp add: conv_index_def Let_def)
  qed
  have d2: "py_index vd (- 2) = Inr (vd ! (length vd - 2))"
    using py_index_minus2 [OF len] .
  have guard: "dev_lt (vd ! (length vd - 2)) tol"
    using assms pts d2 by (auto simp: conv_index_def Let_def split: if_splits)
  have rest: "r = conv_scan vd tol (length vd) (- 2) + 1
       \<and> m \<le> int (length vd) - conv_scan vd tol (length vd) (- 2) - 1"
    using assms pts d2 guard by (auto simp: conv_index_def Let_def split: if_splits)
  from pts len guard rest show ?thesis by blast
qed

lemma conv_index_converges:
  assumes "m < int (length vd)" "2 \<le> length vd" "dev_lt (vd ! (length vd - 2)) tol"
    "m \<le> int (length vd) - conv_scan vd tol (length vd) (- 2) - 1"
  shows "conv_index vd tol m = Inr (conv_scan vd tol (length vd) (- 2) + 1)"
  using assms py_index_minus2 [OF assms(2)] by (simp add: conv_index_def Let_def)


lemma py_index_nonneg:
  "0 \<le> i \<Longrightarrow> i < int (length xs) \<Longrightarrow> py_index xs i = Inr (xs ! nat i)"
  by (simp add: py_index_def)

lemma check_conv_abs_empty: "check_conv zdiv [] tol m ''abs'' None = Inl IndexError"
  by (simp add: check_conv_def conv_vinf_def py_index_def)

lemma hint_tolerances_three:
  "Ha \<noteq> 0 \<Longrightarrow> hint_tolerances Ha [al, an, ah] =
     Inr (al / (1000 * Ha), an / (1000 * Ha), ah / (1000 * Ha))"
  by (simp add: hint_tolerances_def)

lemma hint_tolerances_Inr:
  assumes "hint_tolerances Ha atols = Inr (dl, dn, dh)"
  shows "\<exists>al an ah. atols = [al, an, ah] \<and> dh = ah / (1000 * Ha)"
  using assms
  by (auto simp: hint_tolerances_def split: if_splits list.splits)

lemma compute_hints_exit_flag:
  assumes "compute_hints zdiv Ha ecuts etot atols ps mp = Inr d"
  shows "\<exists>al an ah ih. atols = [al, an, ah]
           \<and> check_conv zdiv etot (ah / (1000 * Ha)) mp ''abs'' None = Inr ih
           \<and> exit d = (ih \<noteq> - 1)"
proof -
  from assms obtain dl dn dh where t: "hint_tolerances Ha atols = Inr (dl, dn, dh)"
    by (cases "hint_tolerances Ha atols") (auto simp: compute_hints_def)
  from hint_tolerances_Inr [OF t] obtain al an ah where
    a: "atols = [al, an, ah]" and dh: "dh = ah / (1000 * Ha)" by blast
  from assms t obtain ih where ih: "check_conv zdiv etot dh mp ''abs'' None = Inr ih"
    by (cases "check_conv zdiv etot dh mp ''abs'' None")
       (auto simp: compute_hints_def split: sum.splits)
  have "exit d = (ih \<noteq> - 1)"
    using assms t ih
    by (auto simp: compute_hints_def hints_data_def split: sum.splits if_splits prod.splits)
  with a dh ih show ?thesis by blast
qed

lemma compute_hints_converged:
  assumes Ha: "0 < Ha"
    and atols: "atols = [al, an, ah]"
    and order: "ah \<le> an" "an \<le> al"
    and len: "length ecuts = length etot"
    and high: "check_conv zdiv etot (ah / (1000 * Ha)) mp ''abs'' None = Inr ih" "ih \<noteq> - 1"
  shows "\<exists>d il im. compute_hints zdiv Ha ecuts etot atols ps mp = Inr d
           \<and> exit d
           \<and> check_conv zdiv etot (al / (1000 * Ha)) 1 ''abs'' None = Inr il
           \<and> check_conv zdiv etot (an / (1000 * Ha)) 1 ''abs'' None = Inr im
           \<and> 1 \<le> il \<and> il \<le> im \<and> im \<le> ih \<and> ih < int (length etot)
           \<and> ecut (low d) = Some (ecuts ! nat il)
           \<and> ecut (normal d) = Some (ecuts ! nat im)
           \<and> ecut (high d) = Some (ecuts ! nat ih)"
proof -
  let ?dl = "al / (1000 * Ha)" and ?dn = "an / (1000 * Ha)" and ?dh = "ah / (1000 * Ha)"
  let ?vd = "map (\<lambda>v. Fin \<bar>v - last etot\<bar>) etot"
  let ?n = "length ?vd"
  let ?sl = "conv_scan ?vd ?dl ?n (- 2)"
  let ?sn = "conv_scan ?vd ?dn ?n (- 2)"
  let ?sh = "conv_scan ?vd ?dh ?n (- 2)"
  have pos: "0 < 1000 * Ha" using Ha by simp
  have hn: "?dh \<le> ?dn" using order(1) pos by (simp add: divide_right_mono)
  have nl: "?dn \<le> ?dl" using order(2) pos by (simp add: divide_right_mono)
  have ne: "etot \<noteq> []"
  proof
    assume "etot = []"
    with high(1) show False by (simp add: check_conv_abs_empty)
  qed
  have ci: "\<And>tol m. check_conv zdiv etot tol m ''abs'' None = conv_index ?vd tol m"
    using check_conv_abs_default [OF ne, of zdiv] .
  have hconv: "conv_index ?vd ?dh mp = Inr ih" using high(1) ci by simp
  from conv_index_converged [OF hconv high(2)]
  have n2: "2 \<le> ?n" and guard: "dev_lt (?vd ! (?n - 2)) ?dh" and ih: "ih = ?sh + 1"
    by blast+
  have n0: "0 < ?n" using n2 by linarith
  have g2: "\<bar>etot ! (?n - 2) - last etot\<bar> < ?dh" using guard n2 by simp
  have dhpos: "0 < ?dh" using g2 by linarith
  have lastz: "?vd ! (?n - 1) = Fin 0" using ne by (simp add: last_conv_nth)
  have lh: "\<not> dev_gt (?vd ! (?n - 1)) ?dh" using lastz dhpos by simp
  have ln: "\<not> dev_gt (?vd ! (?n - 1)) ?dn" using lastz dhpos hn by simp
  have ll: "\<not> dev_gt (?vd ! (?n - 1)) ?dl" using lastz dhpos hn nl by simp
  have bh: "?sh \<le> int ?n - 2" using conv_scan_below_last [OF n2 lh] .
  have bn: "?sn \<le> int ?n - 2" using conv_scan_below_last [OF n2 ln] .
  have bl: "?sl \<le> int ?n - 2" using conv_scan_below_last [OF n2 ll] .
  have zl: "0 \<le> ?sl" using conv_scan_range [OF n0] by blast
  have m1: "?sl \<le> ?sn" using conv_scan_mono [OF nl] .
  have m2: "?sn \<le> ?sh" using conv_scan_mono [OF hn] .
  have one: "1 < int ?n" using n2 by linarith
  have gn: "dev_lt (?vd ! (?n - 2)) ?dn" using g2 hn n2 by simp
  have gl: "dev_lt (?vd ! (?n - 2)) ?dl" using g2 hn nl n2 by simp
  have cn: "conv_index ?vd ?dn 1 = Inr (?sn + 1)"
    using conv_index_converges [OF one n2 gn] bn by simp
  have cl: "conv_index ?vd ?dl 1 = Inr (?sl + 1)"
    using conv_index_converges [OF one n2 gl] bl by simp
  let ?il = "?sl + 1" and ?im = "?sn + 1"
  have lenn: "int (length ecuts) = int ?n" using len by simp
  have el: "py_index ecuts ?il = Inr (ecuts ! nat ?il)"
    using py_index_nonneg [of ?il ecuts] zl bl lenn by simp
  have en: "py_index ecuts ?im = Inr (ecuts ! nat ?im)"
    using py_index_nonneg [of ?im ecuts] zl m1 bn lenn by simp
  have eh: "py_index ecuts ih = Inr (ecuts ! nat ih)"
    using py_index_nonneg [of ih ecuts] zl m1 m2 bh lenn ih by simp
  have ec: "hint_ecuts ecuts ?il ?im ih = Inr (ecuts ! nat ?il, ecuts ! nat ?im, ecuts ! nat ih)"
    using el en eh by (simp add: hint_ecuts_def)
  have tl: "hint_tolerances Ha atols = Inr (?dl, ?dn, ?dh)"
    using atols Ha hint_tolerances_three [of Ha al an ah] by simp
  have pl: "py_index etot (- 1) = Inr (last etot)" using py_index_minus1 [OF ne] .
  let ?d = "hints_data ecuts etot atols ps ih (Some (ecuts ! nat ?il)) (Some (ecuts ! nat ?im))
              (Some (ecuts ! nat ih))"
  have res: "compute_hints zdiv Ha ecuts etot atols ps mp = Inr ?d"
    using tl pl high ci cn cl ec by (simp add: compute_hints_def)
  have ex: "exit ?d" using high(2) by (simp add: hints_data_def)
  have f: "ecut (low ?d) = Some (ecuts ! nat ?il) \<and> ecut (normal ?d) = Some (ecuts ! nat ?im)
         \<and> ecut (high ?d) = Some (ecuts ! nat ih)"
    by (simp add: hints_data_def)
  have ord: "1 \<le> ?il \<and> ?il \<le> ?im \<and> ?im \<le> ih \<and> ih < int (length etot)"
    using zl m1 m2 bh ih by simp
  have c1: "check_conv zdiv etot ?dl 1 ''abs'' None = Inr ?il" using ci cl by simp
  have c2: "check_conv zdiv etot ?dn 1 ''abs'' None = Inr ?im" using ci cn by simp
  from res ex c1 c2 ord f show ?thesis by blast
qed


lemma check_conv_plateau:
  assumes "2 \<le> length etot" "\<bar>etot ! (length etot - 2) - last etot\<bar> < tol"
  shows "\<exists>i. check_conv zdiv etot tol 1 ''abs'' None = Inr i \<and> i \<noteq> - 1"
proof -
  let ?vd = "map (\<lambda>v. Fin \<bar>v - last etot\<bar>) etot"
  have ne: "etot \<noteq> []" using assms(1) by (cases etot) simp_all
  have n2: "2 \<le> length ?vd" using assms(1) by simp
  have n0: "0 < length ?vd" using n2 by linarith
  have g: "dev_lt (?vd ! (length ?vd - 2)) tol" using assms by simp
  have tpos: "0 < tol" using assms(2) by linarith
  have "?vd ! (length ?vd - 1) = Fin 0" using ne by (simp add: last_conv_nth)
  with tpos have l: "\<not> dev_gt (?vd ! (length ?vd - 1)) tol" by simp
  have b: "conv_scan ?vd tol (length ?vd) (- 2) \<le> int (length ?vd) - 2"
    using conv_scan_below_last [OF n2 l] .
  have z: "0 \<le> conv_scan ?vd tol (length ?vd) (- 2)" using conv_scan_range [OF n0] by blast
  have one: "1 < int (length ?vd)" using n2 by linarith
  have "conv_index ?vd tol 1 = Inr (conv_scan ?vd tol (length ?vd) (- 2) + 1)"
    using conv_index_converges [OF one n2 g] b by simp
  then show ?thesis using z check_conv_abs_default [OF ne, of zdiv tol 1] by simp
qed

text \<open>
  Claim C8. \<open>compute_hints\<close> reports \<open>exit\<close> exactly when \<open>check_conv\<close> at the tightest
  (high) tolerance returns an index other than \<open>-1\<close>. And when the tolerances are ordered
  (low \<open>\<ge>\<close> normal \<open>\<ge>\<close> high), the list of parameters is as long as the series and
  the series has reached its plateau within the tightest tolerance (the high tier
  converges, hence the two looser tiers as well), it reports \<open>exit = True\<close> with three
  parameter values that are not \<open>None\<close>, read at indices with low \<open>\<le>\<close> normal \<open>\<le>\<close> high.
  The factor \<open>Ha_to_eV\<close> is positive.
\<close>

theorem compute_hints_exit:
  "(\<forall>d. compute_hints zdiv Ha ecuts etot atols ps mp = Inr d \<longrightarrow>
      (\<exists>al an ah ih. atols = [al, an, ah]
         \<and> check_conv zdiv etot (ah / (1000 * Ha)) mp ''abs'' None = Inr ih
         \<and> exit d = (ih \<noteq> - 1)))
   \<and> (0 < Ha \<and> atols = [al, an, ah] \<and> ah \<le> an \<and> an \<le> al \<and> length ecuts = length etot
        \<and> check_conv zdiv etot (ah / (1000 * Ha)) mp ''abs'' None = Inr ih \<and> ih \<noteq> - 1 \<longrightarrow>
      (\<exists>d il im. compute_hints zdiv Ha ecuts etot atols ps mp = Inr d
         \<and> exit d
         \<and> check_conv zdiv etot (al / (1000 * Ha)) 1 ''abs'' None = Inr il
         \<and> check_conv zdiv etot (an / (1000 * Ha)) 1 ''abs'' None = Inr im
         \<and> 1 \<le> il \<and> il \<le> im \<and> im \<le> ih \<and> ih < int (length etot)
         \<and> ecut (low d) = Some (ecuts ! nat il)
         \<and> ecut (normal d) = Some (ecuts ! nat im)
         \<and> ecut (high d) = Some (ecuts ! nat ih)))"
proof (intro conjI allI impI)
  fix d assume "compute_hints zdiv Ha ecuts etot atols ps mp = Inr d"
  then show "\<exists>al an ah ih. atols = [al, an, ah]
         \<and> check_conv zdiv etot (ah / (1000 * Ha)) mp ''abs'' None = Inr ih
         \<and> exit d = (ih \<noteq> - 1)"
    by (rule compute_hints_exit_flag)
next
  assume a: "0 < Ha \<and> atols = [al, an, ah] \<and> ah \<le> an \<and> an \<le> al \<and> length ecuts = length etot
        \<and> check_conv zdiv etot (ah / (1000 * Ha)) mp ''abs'' None = Inr ih \<and> ih \<noteq> - 1"
  show "\<exists>d il im. compute_hints zdiv Ha ecuts etot atols ps mp = Inr d
         \<and> exit d
         \<and> check_conv zdiv etot (al / (1000 * Ha)) 1 ''abs'' None = Inr il
         \<and> check_conv zdiv etot (an / (1000 * Ha)) 1 ''abs'' None = Inr im
         \<and> 1 \<le> il \<and> il \<le> im \<and> im \<le> ih \<and> ih < int (length etot)
         \<and> ecut (low d) = Some (ecuts ! nat il)
         \<and> ecut (normal d) = Some (ecuts ! nat im)
         \<and> ecut (high d) = Some (ecuts ! nat ih)"
    using compute_hints_converged [of Ha atols al an ah ecuts etot zdiv mp ih ps] a by blast
qed

theorem compute_hints_exit_witness:
  "strictly_decreasing [3, 1005 / 1000, 10005 / 10000, 10001 / 10000, 1]
   \<and> check_conv ZPlus [3, 1005 / 1000, 10005 / 10000, 10001 / 10000, 1]
        ((544 / 100) / (1000 * (272 / 10))) 1 ''abs'' None = Inr 3
   \<and> compute_hints ZPlus (272 / 10) [10, 20, 30, 40, 50]
        [3, 1005 / 1000, 10005 / 10000, 10001 / 10000, 1]
        [272, 272 / 10, 544 / 100] \<lparr> name = ''Si'', path = ''Si.pspnc'' \<rparr> 1
     = Inr \<lparr> exit = True,
             etotal = [3, 1005 / 1000, 10005 / 10000, 10001 / 10000, 1],
             ecut_list = [10, 20, 30, 40, 50], aug_ratios = [1],
             low = \<lparr> ecut = Some 20, aug_ratio = 1 \<rparr>,
             normal = \<lparr> ecut = Some 30, aug_ratio = 1 \<rparr>,
             high = \<lparr> ecut = Some 40, aug_ratio = 1 \<rparr>,
             pseudo_name = ''Si'', pseudo_path = ''Si.pspnc'',
             atols_mev = [272, 272 / 10, 544 / 100], dojo_level = 0 \<rparr>"
  using compute_hints_exit [of ZPlus "272 / 10" "[10, 20, 30, 40, 50]"
          "[3, 1005 / 1000, 10005 / 10000, 10001 / 10000, 1]"
          "[272, 272 / 10, 544 / 100]" "\<lparr> name = ''Si'', path = ''Si.pspnc'' \<rparr>" 1
          272 "272 / 10" "544 / 100" 3]
  by (simp add: compute_hints_def hint_tolerances_def hint_ecuts_def hints_data_def
      check_conv_def conv_vinf_def conv_vdiff_def conv_index_def py_index_def
      strictly_decreasing_def)

end
